theory Spec2Isabelle
  imports Complex_Main
begin

section \<open>Tile pyramid generator: shallow embedding of generate_tiles.py\<close>

text \<open>
  The script slices one large raster into a grid of level-0 tiles and then builds coarser
  zoom levels by combining 2 x 2 blocks of the previous level. Python integers are
  modelled as \<open>int\<close>. A Python float is modelled as the real number that it holds: every
  operation on floats rounds its exact result to the nearest double (\<open>fl\<close> below), and an
  operation whose result leaves the range of the doubles raises, or gives an infinity,
  as Python does. \<open>math.log2\<close> is computed by the C library and is a parameter of the
  model. Exceptions are values of the type \<open>error\<close>.
\<close>

subsection \<open>Exceptions and arithmetic helpers\<close>

datatype error = FileNotFoundError | ZeroDivisionError | ValueError | OverflowError | ImageError

text \<open>Floor division \<open>a // b\<close> of Python integers; it raises for a zero divisor.\<close>

definition py_floordiv :: "int \<Rightarrow> int \<Rightarrow> error + int" where
  "py_floordiv a b = (if b = 0 then Inl ZeroDivisionError else Inr (a div b))"

text \<open>
  Rounding to the nearest integer, a tie going to the even one, and rounding to the nearest
  double: 53 significant bits, a tie going to the even significand, and below \<open>2^-1022\<close>
  the fixed spacing \<open>2^-1074\<close> of the subnormal numbers. \<open>fl\<close> is not bounded above; every
  operation below tests for its own overflow, which begins where the rounded result
  would be \<open>2^1024\<close>, that is, from \<open>2^1024 - 2^970\<close> on.
\<close>

definition round_even :: "real \<Rightarrow> int" where
  "round_even x =
     (let f = \<lfloor>x\<rfloor> in
      if x - real_of_int f < 1 / 2 then f
      else if 1 / 2 < x - real_of_int f then f + 1
      else if even f then f else f + 1)"

definition fl :: "real \<Rightarrow> real" where
  "fl x =
     (if x = 0 then 0
      else let e = max \<lfloor>log 2 \<bar>x\<bar>\<rfloor> (- 1022); u = 2 powi (e - 52) in
           real_of_int (round_even (x / u)) * u)"

text \<open>
  The conversion of a Python integer to a float, as in \<open>int * float\<close> and \<open>float / int\<close>:
  correctly rounded, and OverflowError (int too large to convert to float) when the
  rounded value is not a finite double.
\<close>

definition float_of_int :: "int \<Rightarrow> error + real" where
  "float_of_int n =
     (if 2 ^ 1024 - 2 ^ 970 \<le> \<bar>n\<bar> then Inl OverflowError else Inr (fl (real_of_int n)))"

text \<open>
  True division \<open>a / b\<close> of Python integers: the correctly rounded quotient. It raises for
  a zero divisor, and it raises OverflowError when the rounded quotient is not a finite
  double.
\<close>

definition py_truediv :: "int \<Rightarrow> int \<Rightarrow> error + real" where
  "py_truediv a b =
     (if b = 0 then Inl ZeroDivisionError
      else if (2 ^ 1024 - 2 ^ 970) * \<bar>b\<bar> \<le> \<bar>a\<bar> then Inl OverflowError
      else Inr (fl (real_of_int a / real_of_int b)))"

text \<open>\<open>int(x)\<close> on a finite float truncates towards zero.\<close>

definition py_int :: "real \<Rightarrow> int" where
  "py_int r = (if 0 \<le> r then \<lfloor>r\<rfloor> else \<lceil>r\<rceil>)"

text \<open>
  \<open>math.log2\<close> on a positive Python integer is computed by the interpreter with the C
  library's \<open>log2\<close>, whose code is not part of the repository. The function from the
  integer to the float is a parameter of the model. Three properties of it are taken for
  granted: it is monotone, it is exact at the powers of two, and its relative error is at
  most \<open>2^-51\<close> (two units in the last place).
\<close>

definition log2_like :: "(int \<Rightarrow> real) \<Rightarrow> bool" where
  "log2_like f \<longleftrightarrow>
     (\<forall>m n. 0 < m \<and> m \<le> n \<longrightarrow> f m \<le> f n)
   \<and> (\<forall>k::nat. f (2 ^ k) = real k)
   \<and> (\<forall>n. 0 < n \<longrightarrow> \<bar>f n - log 2 (real_of_int n)\<bar> \<le> log 2 (real_of_int n) / 2 ^ 51)"

typedef mathlib = "{f :: int \<Rightarrow> real. log2_like f}"
  morphisms log2_of Abs_mathlib
proof
  show "(\<lambda>n. log 2 (real_of_int n)) \<in> {f :: int \<Rightarrow> real. log2_like f}"
    by (simp add: log2_like_def log_nat_power)
qed

text \<open>\<open>math.log2\<close> raises ValueError (math domain error) outside the positive numbers.\<close>

definition math_log2 :: "mathlib \<Rightarrow> int \<Rightarrow> error + real" where
  "math_log2 lm n = (if n \<le> 0 then Inl ValueError else Inr (log2_of lm n))"

text \<open>\<open>range(a, b)\<close> as the list of its values.\<close>

definition py_range :: "int \<Rightarrow> int \<Rightarrow> int list" where
  "py_range a b = [a..b - 1]"

subsection \<open>The generator object\<close>

record generator =
  map_size_km :: int
  map_size_m :: int
  tile_size_px :: int
  meters_per_tile :: int
  tiles_per_axis :: int
  max_zoom :: int

text \<open>\<open>_calculate_max_zoom\<close>: \<open>math.ceil(math.log2(self.tiles_per_axis))\<close>.\<close>

definition calculate_max_zoom :: "mathlib \<Rightarrow> int \<Rightarrow> error + int" where
  "calculate_max_zoom lm tpa =
     (case math_log2 lm tpa of Inl e \<Rightarrow> Inl e | Inr l \<Rightarrow> Inr \<lceil>l\<rceil>)"

text \<open>
  \<open>__init__\<close>. The fields are set in the source's order; the last statement that can
  raise is the print of the resolution, \<open>(meters_per_tile * 100) / tile_size_px\<close>.
  The two path arguments are stored unchanged and take no part in any computation, so
  they are left out of the record.
\<close>

definition init :: "mathlib \<Rightarrow> int \<Rightarrow> int \<Rightarrow> int \<Rightarrow> error + generator" where
  "init lm size_km tile_px mpt =
     (let size_m = size_km * 1000 in
      case py_floordiv size_m mpt of Inl e \<Rightarrow> Inl e
      | Inr tpa \<Rightarrow>
     (case calculate_max_zoom lm tpa of Inl e \<Rightarrow> Inl e
      | Inr mz \<Rightarrow>
     (case py_truediv (mpt * 100) tile_px of Inl e \<Rightarrow> Inl e
      | Inr res \<Rightarrow>
        Inr \<lparr>map_size_km = size_km, map_size_m = size_m, tile_size_px = tile_px,
             meters_per_tile = mpt, tiles_per_axis = tpa, max_zoom = mz\<rparr>)))"

subsection \<open>Images and the image library\<close>

text \<open>
  An image is its size and its pixels; only the pixels inside the size are meaningful.
  \<open>Image.new('RGB', size)\<close> gives a black canvas and rejects a negative size.
  \<open>canvas.paste(src, (x0, y0))\<close> overwrites the rectangle at \<open>(x0, y0)\<close> that has the
  size of \<open>src\<close>.
\<close>

type_synonym colour = "nat \<times> nat \<times> nat"

record image =
  size_w :: int
  size_h :: int
  px :: "int \<Rightarrow> int \<Rightarrow> colour"

definition black :: colour where
  "black = (0, 0, 0)"

definition Image_new :: "int \<Rightarrow> int \<Rightarrow> error + image" where
  "Image_new w h =
     (if w < 0 \<or> h < 0 then Inl ValueError
      else Inr \<lparr>size_w = w, size_h = h, px = (\<lambda>i j. black)\<rparr>)"

definition paste :: "image \<Rightarrow> image \<Rightarrow> int \<times> int \<Rightarrow> image" where
  "paste canvas src pos =
     (case pos of (x0, y0) \<Rightarrow>
        canvas\<lparr>px := (\<lambda>i j.
          if x0 \<le> i \<and> i < x0 + size_w src \<and> y0 \<le> j \<and> j < y0 + size_h src
          then px src (i - x0) (j - y0) else px canvas i j)\<rparr>)"

text \<open>
  Cropping, Lanczos resampling and JPEG encoding belong to the imaging library, whose
  code is not part of the repository. They are parameters of the model; \<open>None\<close> means
  that the call raises. \<open>pil_crop\<close> is the first call that reads the pixel data of the
  source, which \<open>Image.open\<close> does not decode. \<open>pil_lanczos\<close> gives the pixels of the
  resized image, whose size is the requested one. \<open>pil_save\<close> takes the JPEG quality and
  gives the image that is read back from the written file.
\<close>

record pil =
  pil_crop :: "image \<Rightarrow> int \<times> int \<times> int \<times> int \<Rightarrow> image option"
  pil_lanczos :: "image \<Rightarrow> int \<times> int \<Rightarrow> (int \<Rightarrow> int \<Rightarrow> colour) option"
  pil_save :: "int \<Rightarrow> image \<Rightarrow> image option"

definition resize :: "pil \<Rightarrow> image \<Rightarrow> int \<times> int \<Rightarrow> error + image" where
  "resize lib img sz =
     (case pil_lanczos lib img sz of None \<Rightarrow> Inl ImageError
      | Some p \<Rightarrow> Inr \<lparr>size_w = fst sz, size_h = snd sz, px = p\<rparr>)"

subsection \<open>Files\<close>

text \<open>
  What \<open>os.path.exists\<close> and \<open>Image.open\<close> find at the source path: nothing, a file on
  which \<open>Image.open\<close> raises, or a raster whose header gives its size. \<open>Image.open\<close> reads
  the header only; whether the pixel data of a raster can be decoded shows at the first
  crop, which is the library's.
\<close>

datatype source_file = Missing | NotAnImage | Raster image

record zoom_level_info =
  zl_zoom :: int
  zl_tilesPerAxis :: int
  zl_totalTiles :: int
  zl_metersPerTile :: int

record metadata =
  md_mapSizeKm :: int
  md_mapSizeM :: int
  md_tileSizePx :: int
  md_metersPerTile :: int
  md_tilesPerAxis :: int
  md_maxZoom :: int
  md_resolutionCmPerPixel :: real
  md_zoomLevels :: "zoom_level_info list"

record leaflet =
  lc_scale_factor :: real
  lc_MAP_SIZE_M :: int
  lc_TILE_SIZE_PX :: int
  lc_METERS_PER_TILE :: int
  lc_MAX_ZOOM :: int
  lc_EDGE_TO_CENTER_OFFSET :: real

text \<open>
  The output: the tile files \<open>{zoom}/{x}/{y}.jpg\<close> as a map from \<open>(zoom, x, y)\<close>,
  \<open>metadata.json\<close>, \<open>leaflet-config.js\<close> and the resized copy of the source that \<open>main\<close>
  may write. Directories are not represented.
\<close>

record fs =
  tiles :: "int \<times> int \<times> int \<Rightarrow> image option"
  metadata_json :: "metadata option"
  leaflet_config :: "leaflet option"
  resized_source :: "image option"

datatype outcome = Ok | Raised error

text \<open>A \<open>for\<close> loop whose body may raise: the exception ends the loop and keeps the state.\<close>

fun for_each :: "('a \<Rightarrow> 's \<Rightarrow> outcome \<times> 's) \<Rightarrow> 'a list \<Rightarrow> 's \<Rightarrow> outcome \<times> 's" where
  "for_each body [] st = (Ok, st)"
| "for_each body (x # xs) st =
     (case body x st of (Ok, st') \<Rightarrow> for_each body xs st'
      | (Raised e, st') \<Rightarrow> (Raised e, st'))"

text \<open>
  The number of iterations that such a loop begins: the one in which the body raises is
  the last.
\<close>

fun iterations :: "('a \<Rightarrow> 's \<Rightarrow> outcome \<times> 's) \<Rightarrow> 'a list \<Rightarrow> 's \<Rightarrow> nat" where
  "iterations body [] st = 0"
| "iterations body (x # xs) st =
     (case body x st of (Ok, st') \<Rightarrow> Suc (iterations body xs st')
      | (Raised e, st') \<Rightarrow> Suc 0)"

text \<open>Sequencing of two statements.\<close>

definition and_then :: "outcome \<times> 's \<Rightarrow> ('s \<Rightarrow> outcome \<times> 's) \<Rightarrow> outcome \<times> 's" where
  "and_then r f = (case r of (Ok, st) \<Rightarrow> f st | (Raised e, st) \<Rightarrow> (Raised e, st))"

subsection \<open>Base tiler\<close>

text \<open>
  \<open>tile_source_size = int(self.meters_per_tile * pixels_per_meter)\<close>: the integer is
  converted to a float, the product of the two floats is rounded, and \<open>int\<close> truncates
  it. The conversion raises OverflowError for an integer beyond the doubles, and so does
  \<open>int\<close> when the product has overflowed to infinity.
\<close>

definition tile_source_size :: "int \<Rightarrow> real \<Rightarrow> error + int" where
  "tile_source_size mpt pixels_per_meter =
     (case float_of_int mpt of Inl e \<Rightarrow> Inl e
      | Inr m \<Rightarrow>
          (let product = fl (m * pixels_per_meter) in
           if 2 ^ 1024 \<le> \<bar>product\<bar> then Inl OverflowError else Inr (py_int product)))"

definition crop_box :: "int \<Rightarrow> int \<Rightarrow> int \<Rightarrow> int \<Rightarrow> int \<Rightarrow> int \<times> int \<times> int \<times> int" where
  "crop_box tss source_width source_height tile_x tile_y =
     (let source_x = tile_x * tss; source_y = tile_y * tss in
      (max 0 source_x, max 0 source_y,
       min (source_x + tss) source_width, min (source_y + tss) source_height))"

text \<open>
  The body of the \<open>try\<close> block of one cell: crop, resize unless the crop already has the
  tile size, save with quality 85. \<open>None\<close> when one of the three raises; the handler
  reports it and the loop goes on.
\<close>

definition render_base_tile ::
  "pil \<Rightarrow> image \<Rightarrow> int \<times> int \<times> int \<times> int \<Rightarrow> int \<Rightarrow> image option" where
  "render_base_tile lib source_img box ts =
     (case pil_crop lib source_img box of None \<Rightarrow> None
      | Some tile_img \<Rightarrow>
          if (size_w tile_img, size_h tile_img) \<noteq> (ts, ts)
          then (case resize lib tile_img (ts, ts) of Inl e \<Rightarrow> None
                | Inr resized \<Rightarrow> pil_save lib 85 resized)
          else pil_save lib 85 tile_img)"

definition base_tile_step :: "pil \<Rightarrow> generator \<Rightarrow> image \<Rightarrow> int \<Rightarrow> int \<Rightarrow> int \<Rightarrow> fs \<Rightarrow> outcome \<times> fs" where
  "base_tile_step lib g source_img tss tile_x tile_y st =
     (case render_base_tile lib source_img
             (crop_box tss (size_w source_img) (size_h source_img) tile_x tile_y)
             (tile_size_px g) of
        None \<Rightarrow> (Ok, st)
      | Some t \<Rightarrow> (Ok, st\<lparr>tiles := (tiles st)((0, tile_x, tile_y) \<mapsto> t)\<rparr>))"

text \<open>
  \<open>_generate_base_tiles\<close>. The two statements that compute the scale and the cell size
  stand between the \<open>try\<close> block of the load and the loops, so what they raise leaves the
  function.
\<close>

definition generate_base_tiles :: "pil \<Rightarrow> generator \<Rightarrow> source_file \<Rightarrow> fs \<Rightarrow> outcome \<times> fs" where
  "generate_base_tiles lib g src st =
     (case src of
        Missing \<Rightarrow> (Raised FileNotFoundError, st)
      | NotAnImage \<Rightarrow> (Raised ImageError, st)
      | Raster source_img \<Rightarrow>
          (case py_truediv (size_w source_img) (map_size_m g) of
             Inl e \<Rightarrow> (Raised e, st)
           | Inr pixels_per_meter \<Rightarrow>
               (case tile_source_size (meters_per_tile g) pixels_per_meter of
                  Inl e \<Rightarrow> (Raised e, st)
                | Inr tss \<Rightarrow>
                    for_each
                      (\<lambda>tile_x. for_each (base_tile_step lib g source_img tss tile_x)
                         (py_range 0 (tiles_per_axis g)))
                      (py_range 0 (tiles_per_axis g)) st)))"

subsection \<open>Pyramid builder\<close>

text \<open>
  One quadrant of the inner loops of \<open>_generate_zoom_level\<close>: when the source tile's file
  exists it is opened, resized to half the tile size and pasted at
  \<open>(dx * half_size, dy * half_size)\<close>; otherwise the canvas is left as it is.
\<close>

definition quadrant_step ::
  "pil \<Rightarrow> (int \<times> int \<times> int \<Rightarrow> image option) \<Rightarrow> int \<Rightarrow> int \<Rightarrow> int \<Rightarrow> int
     \<Rightarrow> int \<times> int \<Rightarrow> image \<Rightarrow> outcome \<times> image" where
  "quadrant_step lib store prev_zoom src_x src_y half_size d combined_img =
     (case d of (dx, dy) \<Rightarrow>
        (case store (prev_zoom, src_x + dx, src_y + dy) of
           None \<Rightarrow> (Ok, combined_img)
         | Some src_tile \<Rightarrow>
             (case resize lib src_tile (half_size, half_size) of
                Inl e \<Rightarrow> (Raised e, combined_img)
              | Inr small \<Rightarrow>
                  (Ok, paste combined_img small (dx * half_size, dy * half_size)))))"

text \<open>The two loops \<open>for dx in range(2): for dy in range(2)\<close>, in their order.\<close>

definition quadrants :: "(int \<times> int) list" where
  "quadrants = [(0, 0), (0, 1), (1, 0), (1, 1)]"

definition compose_tile ::
  "pil \<Rightarrow> (int \<times> int \<times> int \<Rightarrow> image option) \<Rightarrow> int \<Rightarrow> int \<Rightarrow> int \<Rightarrow> int
     \<Rightarrow> error + image" where
  "compose_tile lib store ts zoom tile_x tile_y =
     (case Image_new ts ts of Inl e \<Rightarrow> Inl e
      | Inr blank \<Rightarrow>
          (case for_each (quadrant_step lib store (zoom - 1) (tile_x * 2) (tile_y * 2) (ts div 2))
                  quadrants blank of
             (Raised e, c) \<Rightarrow> Inl e
           | (Ok, combined_img) \<Rightarrow> Inr combined_img))"

definition zoom_tile_step :: "pil \<Rightarrow> generator \<Rightarrow> int \<Rightarrow> int \<Rightarrow> int \<Rightarrow> fs \<Rightarrow> outcome \<times> fs" where
  "zoom_tile_step lib g zoom tile_x tile_y st =
     (case compose_tile lib (tiles st) (tile_size_px g) zoom tile_x tile_y of
        Inl e \<Rightarrow> (Raised e, st)
      | Inr combined_img \<Rightarrow>
          (case pil_save lib 85 combined_img of
             None \<Rightarrow> (Raised ImageError, st)
           | Some t \<Rightarrow> (Ok, st\<lparr>tiles := (tiles st)((zoom, tile_x, tile_y) \<mapsto> t)\<rparr>)))"

text \<open>
  \<open>_generate_zoom_level\<close>. The zoom is never negative where it is called, so
  \<open>2 ** zoom\<close> is the integer power.
\<close>

definition tiles_this_level :: "generator \<Rightarrow> int \<Rightarrow> int" where
  "tiles_this_level g zoom = tiles_per_axis g div 2 ^ nat zoom"

definition generate_zoom_level :: "pil \<Rightarrow> generator \<Rightarrow> int \<Rightarrow> fs \<Rightarrow> outcome \<times> fs" where
  "generate_zoom_level lib g zoom st =
     (if tiles_this_level g zoom < 1 then (Ok, st)
      else for_each
             (\<lambda>tile_x. for_each (zoom_tile_step lib g zoom tile_x)
                (py_range 0 (tiles_this_level g zoom)))
             (py_range 0 (tiles_this_level g zoom)) st)"

subsection \<open>Metadata, viewer configuration, statistics\<close>

definition zoom_level_entry :: "generator \<Rightarrow> int \<Rightarrow> zoom_level_info" where
  "zoom_level_entry g zoom =
     (let tiles_at_zoom = max 1 (tiles_per_axis g div 2 ^ nat zoom) in
      \<lparr>zl_zoom = zoom, zl_tilesPerAxis = tiles_at_zoom,
       zl_totalTiles = tiles_at_zoom * tiles_at_zoom,
       zl_metersPerTile = meters_per_tile g * 2 ^ nat zoom\<rparr>)"

definition generate_metadata :: "generator \<Rightarrow> fs \<Rightarrow> outcome \<times> fs" where
  "generate_metadata g st =
     (case py_truediv (meters_per_tile g * 100) (tile_size_px g) of
        Inl e \<Rightarrow> (Raised e, st)
      | Inr res \<Rightarrow>
          (Ok, st\<lparr>metadata_json := Some
             \<lparr>md_mapSizeKm = map_size_km g, md_mapSizeM = map_size_m g,
              md_tileSizePx = tile_size_px g, md_metersPerTile = meters_per_tile g,
              md_tilesPerAxis = tiles_per_axis g, md_maxZoom = max_zoom g,
              md_resolutionCmPerPixel = res,
              md_zoomLevels = map (zoom_level_entry g) (py_range 0 (max_zoom g + 1))\<rparr>\<rparr>))"

text \<open>
  \<open>_generate_leaflet_config\<close>: \<open>scale_factor = 1 / (tile_size_px / 256 / meters_per_tile)\<close>
  and \<open>meters_per_tile / 2\<close> are the computations; the rest of the text is constant. The
  division of a float by an integer converts the integer and raises for a zero divisor;
  a quotient of floats that overflows is an infinity, which the model keeps as the
  rounded value.
\<close>

definition generate_leaflet_config :: "generator \<Rightarrow> fs \<Rightarrow> outcome \<times> fs" where
  "generate_leaflet_config g st =
     (case py_truediv (tile_size_px g) 256 of
        Inl e \<Rightarrow> (Raised e, st)
      | Inr a \<Rightarrow>
          (case float_of_int (meters_per_tile g) of
             Inl e \<Rightarrow> (Raised e, st)
           | Inr m \<Rightarrow>
               if m = 0 then (Raised ZeroDivisionError, st)
               else if fl (a / m) = 0 then (Raised ZeroDivisionError, st)
               else (case py_truediv (meters_per_tile g) 2 of
                       Inl e \<Rightarrow> (Raised e, st)
                     | Inr off \<Rightarrow>
                         (Ok, st\<lparr>leaflet_config := Some
                            \<lparr>lc_scale_factor = fl (1 / fl (a / m)),
                             lc_MAP_SIZE_M = map_size_m g, lc_TILE_SIZE_PX = tile_size_px g,
                             lc_METERS_PER_TILE = meters_per_tile g, lc_MAX_ZOOM = max_zoom g,
                             lc_EDGE_TO_CENTER_OFFSET = off\<rparr>\<rparr>))))"

text \<open>
  \<open>_print_statistics\<close> only prints, but \<open>total_size / total_files / 1024\<close> raises when
  the output holds no tile.
\<close>

definition print_statistics :: "fs \<Rightarrow> outcome \<times> fs" where
  "print_statistics st = (if tiles st = Map.empty then (Raised ZeroDivisionError, st) else (Ok, st))"

subsection \<open>The run\<close>

definition zoom_loop :: "pil \<Rightarrow> generator \<Rightarrow> fs \<Rightarrow> outcome \<times> fs" where
  "zoom_loop lib g st = for_each (generate_zoom_level lib g) (py_range 1 (max_zoom g + 1)) st"

text \<open>The number of zoom levels that the loop of \<open>generate_all_tiles\<close> begins.\<close>

definition zoom_steps :: "pil \<Rightarrow> generator \<Rightarrow> fs \<Rightarrow> nat" where
  "zoom_steps lib g st = iterations (generate_zoom_level lib g) (py_range 1 (max_zoom g + 1)) st"

definition generate_all_tiles :: "pil \<Rightarrow> generator \<Rightarrow> source_file \<Rightarrow> fs \<Rightarrow> outcome \<times> fs" where
  "generate_all_tiles lib g src st =
     and_then (and_then (and_then (and_then
       (generate_base_tiles lib g src st)
       (zoom_loop lib g))
       (generate_metadata g))
       (generate_leaflet_config g))
       print_statistics"





subsection \<open>Reference values\<close>

text \<open>
  A logarithm to run the model on concrete inputs: the real logarithm rounded to the
  nearest double for every integer below \<open>2^53\<close>, which a double holds exactly, and the
  real logarithm above. At \<open>2^49 + 1\<close> it gives 49: the exact value
  \<open>49.0000000000000026\<close> lies nearer to 49 than to the next double, and 49 is the result
  of the C library there.
\<close>

definition sample_log2 :: mathlib where
  "sample_log2 =
     Abs_mathlib (\<lambda>n. if n < 2 ^ 53 then fl (log 2 (real_of_int n)) else log 2 (real_of_int n))"

text \<open>
  The configuration of the reference scenario: 13 km, 542 px tiles, 100 m per tile.
\<close>

definition reference_generator :: generator where
  "reference_generator =
     \<lparr>map_size_km = 13, map_size_m = 13000, tile_size_px = 542, meters_per_tile = 100,
      tiles_per_axis = 130, max_zoom = 8\<rparr>"

definition white :: colour where
  "white = (255, 255, 255)"

definition solid_image :: "int \<Rightarrow> int \<Rightarrow> colour \<Rightarrow> image" where
  "solid_image w h c = \<lparr>size_w = w, size_h = h, px = (\<lambda>i j. c)\<rparr>"


text \<open>
  A small imaging library to run the model on concrete inputs: cropping copies the
  window and rejects an inverted one, resampling takes the nearest pixel and, as
  Pillow's \<open>resize\<close> does, rejects a target without a positive width and height, saving
  is lossless. On the second library every crop raises, as on a source whose header
  can be read and whose pixel data cannot.
\<close>

definition sample_pil :: pil where
  "sample_pil =
     \<lparr>pil_crop = (\<lambda>img box. case box of (l, u, r, b) \<Rightarrow>
         if r < l \<or> b < u then None
         else Some \<lparr>size_w = r - l, size_h = b - u, px = (\<lambda>i j. px img (l + i) (u + j))\<rparr>),
      pil_lanczos = (\<lambda>img sz. case sz of (w, h) \<Rightarrow>
         if w < 1 \<or> h < 1 then None
         else Some (\<lambda>i j. px img (i * size_w img div w) (j * size_h img div h))),
      pil_save = (\<lambda>quality img. Some img)\<rparr>"


definition empty_fs :: fs where
  "empty_fs =
     \<lparr>tiles = Map.empty, metadata_json = None, leaflet_config = None, resized_source = None\<rparr>"



text \<open>
  The tile that \<open>_generate_zoom_level\<close> writes for one cell: the composed canvas as it is
  saved.
\<close>

definition level_tile ::
  "pil \<Rightarrow> generator \<Rightarrow> (int \<times> int \<times> int \<Rightarrow> image option) \<Rightarrow> int \<Rightarrow> int \<Rightarrow> int \<Rightarrow> image option" where
  "level_tile lib g store zoom tile_x tile_y =
     (case compose_tile lib store (tile_size_px g) zoom tile_x tile_y of
        Inl e \<Rightarrow> None
      | Inr combined_img \<Rightarrow> pil_save lib 85 combined_img)"

text \<open>
  A two by two grid of 2 px tiles, an output whose level 0 lacks the tile \<open>(1, 1)\<close>, and a
  level 0 of four white tiles of a given size.
\<close>

definition small_generator :: generator where
  "small_generator =
     \<lparr>map_size_km = 2, map_size_m = 2000, tile_size_px = 2, meters_per_tile = 1000,
      tiles_per_axis = 2, max_zoom = 1\<rparr>"

definition three_quadrants :: fs where
  "three_quadrants =
     empty_fs\<lparr>tiles := [(0, 0, 0) \<mapsto> solid_image 2 2 white, (0, 0, 1) \<mapsto> solid_image 2 2 white,
                        (0, 1, 0) \<mapsto> solid_image 2 2 white]\<rparr>"


text \<open>
  A four by four grid of tiles of one pixel with an output that holds the base tile
  \<open>(0, 0)\<close>, and a grid of \<open>2^49 + 1\<close> tiles per axis as the constructor builds it with the
  logarithm above.
\<close>

definition one_px_generator :: generator where
  "one_px_generator =
     \<lparr>map_size_km = 4, map_size_m = 4000, tile_size_px = 1, meters_per_tile = 1000,
      tiles_per_axis = 4, max_zoom = 2\<rparr>"

definition one_tile :: fs where
  "one_tile = empty_fs\<lparr>tiles := [(0, 0, 0) \<mapsto> solid_image 1 1 white]\<rparr>"

definition wide_generator :: generator where
  "wide_generator =
     \<lparr>map_size_km = 2 ^ 49 + 1, map_size_m = (2 ^ 49 + 1) * 1000, tile_size_px = 2,
      meters_per_tile = 1000, tiles_per_axis = 2 ^ 49 + 1, max_zoom = 49\<rparr>"




section \<open>Properties\<close>

subsection \<open>Floats\<close>

text \<open>
  The value of \<open>fl\<close> at a number whose binary exponent is known: the number is scaled to
  53 bits, rounded to an integer and scaled back.
\<close>

lemma fl_eval:
  assumes "- 1022 \<le> e" "2 powi e \<le> \<bar>x\<bar>" "\<bar>x\<bar> < 2 powi (e + 1)"
  shows "fl x = real_of_int (round_even (x / 2 powi (e - 52))) * 2 powi (e - 52)"
proof -
  have "(0::real) < 2 powi e" by simp
  then have pos: "0 < \<bar>x\<bar>" using assms(2) by linarith
  have p: "(2::real) powr real_of_int k = 2 powi k" for k
    by (rule powr_real_of_int') simp_all
  have "(\<lfloor>log 2 \<bar>x\<bar>\<rfloor> = e) = (2 powr real_of_int e \<le> \<bar>x\<bar> \<and> \<bar>x\<bar> < 2 powr real_of_int (e + 1))"
    using pos by (intro floor_log_eq_powr_iff) simp_all
  then have "\<lfloor>log 2 \<bar>x\<bar>\<rfloor> = e" using assms(2,3) by (simp only: p)
  then show ?thesis using pos assms(1) by (simp add: fl_def Let_def max_def)
qed

lemma fl_nonneg: "0 \<le> x \<Longrightarrow> 0 \<le> fl x"
  by (auto simp: fl_def Let_def round_even_def intro!: mult_nonneg_nonneg divide_nonneg_nonneg)



lemma fl_100: "fl 100 = 100"
  using fl_eval[of 6 100] by (simp add: round_even_def)


lemma round_even_near: "\<bar>real_of_int (round_even y) - y\<bar> \<le> 1 / 2"
  unfolding round_even_def Let_def
  by (auto split: if_splits)

lemma round_even_of_int: "round_even (real_of_int j) = j"
  by (simp add: round_even_def)

lemma round_even_mono:
  assumes "a \<le> b"
  shows "round_even a \<le> round_even b"
proof -
  have f: "\<lfloor>a\<rfloor> \<le> \<lfloor>b\<rfloor>" using assms by (rule floor_mono)
  have ra: "round_even a = \<lfloor>a\<rfloor> \<or> round_even a = \<lfloor>a\<rfloor> + 1"
    by (simp add: round_even_def Let_def)
  have rb: "round_even b = \<lfloor>b\<rfloor> \<or> round_even b = \<lfloor>b\<rfloor> + 1"
    by (simp add: round_even_def Let_def)
  show ?thesis
  proof (cases "\<lfloor>a\<rfloor> = \<lfloor>b\<rfloor>")
    case False
    then have "\<lfloor>a\<rfloor> + 1 \<le> \<lfloor>b\<rfloor>" using f by simp
    then show ?thesis using ra rb by linarith
  next
    case True
    have d: "a - real_of_int \<lfloor>b\<rfloor> \<le> b - real_of_int \<lfloor>b\<rfloor>" using assms by simp
    show ?thesis
      using d unfolding round_even_def Let_def True
      by (auto split: if_splits)
  qed
qed

lemma round_even_tie:
  assumes "real_of_int f \<le> y" "y \<le> real_of_int f + 1 / 2" "even f"
  shows "round_even y = f"
proof -
  have fl: "\<lfloor>y\<rfloor> = f" using assms(1,2) by (intro floor_unique) linarith+
  show ?thesis using assms(2,3) by (auto simp: round_even_def Let_def fl)
qed

text \<open>The parts of a positive number in the normal range.\<close>

lemma fl_normal:
  assumes "1 \<le> x"
  defines "e \<equiv> \<lfloor>log 2 x\<rfloor>"
  shows "0 \<le> e" "2 powi e \<le> x" "x < 2 powi (e + 1)"
    "fl x = real_of_int (round_even (x / 2 powi (e - 52))) * 2 powi (e - 52)"
proof -
  have pos: "0 < x" using assms(1) by simp
  have "0 \<le> log 2 x" using assms(1) by simp
  then show e0: "0 \<le> e" unfolding e_def by simp
  have p: "(2::real) powr real_of_int k = 2 powi k" for k
    by (rule powr_real_of_int') simp_all
  have "(\<lfloor>log 2 x\<rfloor> = e) = (2 powr real_of_int e \<le> x \<and> x < 2 powr real_of_int (e + 1))"
    using pos by (intro floor_log_eq_powr_iff) simp_all
  then have b: "2 powi e \<le> x \<and> x < 2 powi (e + 1)" unfolding p by (simp add: e_def)
  then show "2 powi e \<le> x" "x < 2 powi (e + 1)" by simp_all
  have "\<bar>x\<bar> = x" using pos by simp
  then show "fl x = real_of_int (round_even (x / 2 powi (e - 52))) * 2 powi (e - 52)"
    using fl_eval[of e x] e0 b by simp
qed

lemma powi_scale: "(2::real) ^ n * 2 powi (e - int n) = 2 powi e"
proof -
  have "(2::real) powi int n * 2 powi (e - int n) = 2 powi (int n + (e - int n))"
    by (rule power_int_add[symmetric]) simp
  then show ?thesis by simp
qed

lemma scaled_bounds:
  fixes x :: real
  assumes "2 powi e \<le> x" "x < 2 powi (e + 1)"
  shows "2 ^ 52 \<le> x / 2 powi (e - 52)" "x / 2 powi (e - 52) < 2 ^ 53"
proof -
  have u: "(0::real) < 2 powi (e - 52)" by simp
  have a: "(2::real) ^ 52 * 2 powi (e - 52) = 2 powi e"
    using powi_scale[of 52 e] by simp
  have b: "(2::real) ^ 53 * 2 powi (e - 52) = 2 powi (e + 1)"
    using powi_scale[of 53 "e + 1"] by simp
  show "2 ^ 52 \<le> x / 2 powi (e - 52)"
    using assms(1) u a by (simp add: pos_le_divide_eq)
  show "x / 2 powi (e - 52) < 2 ^ 53"
    using assms(2) u b by (simp add: pos_divide_less_eq)
qed

lemma fl_binade:
  assumes "1 \<le> x"
  shows "2 powi \<lfloor>log 2 x\<rfloor> \<le> fl x" "fl x \<le> 2 powi (\<lfloor>log 2 x\<rfloor> + 1)"
proof -
  let ?e = "\<lfloor>log 2 x\<rfloor>"
  let ?u = "(2::real) powi (?e - 52)"
  note n = fl_normal[OF assms]
  note s = scaled_bounds[OF n(2,3)]
  have u: "0 < ?u" by simp
  have "real_of_int (2 ^ 52) \<le> x / ?u" using s(1) by simp
  then have "round_even (real_of_int (2 ^ 52)) \<le> round_even (x / ?u)" by (rule round_even_mono)
  then have lo: "2 ^ 52 \<le> round_even (x / ?u)" by (simp only: round_even_of_int)
  have "x / ?u \<le> real_of_int (2 ^ 53)" using s(2) by simp
  then have "round_even (x / ?u) \<le> round_even (real_of_int (2 ^ 53))" by (rule round_even_mono)
  then have hi: "round_even (x / ?u) \<le> 2 ^ 53" by (simp only: round_even_of_int)
  have a: "(2::real) ^ 52 * ?u = 2 powi ?e"
    using powi_scale[of 52 ?e] by simp
  have b: "(2::real) ^ 53 * ?u = 2 powi (?e + 1)"
    using powi_scale[of 53 "?e + 1"] by simp
  have "(2::real) ^ 52 \<le> real_of_int (round_even (x / ?u))"
    using lo by (metis of_int_le_iff of_int_numeral of_int_power)
  then have "2 ^ 52 * ?u \<le> real_of_int (round_even (x / ?u)) * ?u"
    using u by (intro mult_right_mono) simp_all
  then show "2 powi ?e \<le> fl x" unfolding n(4) a .
  have "real_of_int (round_even (x / ?u)) \<le> (2::real) ^ 53"
    using hi by (metis of_int_le_iff of_int_numeral of_int_power)
  then have "real_of_int (round_even (x / ?u)) * ?u \<le> 2 ^ 53 * ?u"
    using u by (intro mult_right_mono) simp_all
  then show "fl x \<le> 2 powi (?e + 1)" unfolding n(4) b .
qed

lemma fl_mono:
  assumes "1 \<le> x" "x \<le> y"
  shows "fl x \<le> fl y"
proof -
  let ?ex = "\<lfloor>log 2 x\<rfloor>" and ?ey = "\<lfloor>log 2 y\<rfloor>"
  have y1: "1 \<le> y" using assms by simp
  have "log 2 x \<le> log 2 y" using assms by simp
  then have e: "?ex \<le> ?ey" by (rule floor_mono)
  show ?thesis
  proof (cases "?ex = ?ey")
    case True
    let ?u = "(2::real) powi (?ey - 52)"
    have u: "0 < ?u" by simp
    have "x / ?u \<le> y / ?u" using assms(2) u by (simp add: divide_right_mono)
    then have "round_even (x / ?u) \<le> round_even (y / ?u)" by (rule round_even_mono)
    then have "real_of_int (round_even (x / ?u)) * ?u \<le> real_of_int (round_even (y / ?u)) * ?u"
      using u by (intro mult_right_mono) simp_all
    then show ?thesis
      using fl_normal(4)[OF assms(1)] fl_normal(4)[OF y1] True by simp
  next
    case False
    then have "?ex + 1 \<le> ?ey" using e by simp
    then have "(2::real) powi (?ex + 1) \<le> 2 powi ?ey" by (intro power_int_increasing) simp_all
    then show ?thesis using fl_binade(2)[OF assms(1)] fl_binade(1)[OF y1] by linarith
  qed
qed

lemma fl_error:
  assumes "1 \<le> x"
  shows "\<bar>fl x - x\<bar> \<le> x / 2 ^ 53"
proof -
  let ?e = "\<lfloor>log 2 x\<rfloor>"
  let ?u = "(2::real) powi (?e - 52)"
  note n = fl_normal[OF assms]
  have u: "0 < ?u" by simp
  have "fl x - x = (real_of_int (round_even (x / ?u)) - x / ?u) * ?u"
    using u by (simp add: n(4) algebra_simps)
  then have "\<bar>fl x - x\<bar> = \<bar>real_of_int (round_even (x / ?u)) - x / ?u\<bar> * ?u"
    using u by (simp add: abs_mult)
  also have "\<dots> \<le> 1 / 2 * ?u"
    using round_even_near[of "x / ?u"] u by (intro mult_right_mono) simp_all
  also have "1 / 2 * ?u = 2 powi ?e / 2 ^ 53"
  proof -
    have "(2::real) ^ 52 * ?u = 2 powi ?e"
      using powi_scale[of 52 ?e] by simp
    then show ?thesis by (simp add: field_simps)
  qed
  also have "\<dots> \<le> x / 2 ^ 53" using n(2) by (intro divide_right_mono) simp_all
  finally show ?thesis .
qed

lemma fl_of_nat:
  assumes "k \<le> 53"
  shows "fl (real k) = real k"
proof (cases "k = 0")
  case True
  then show ?thesis by (simp add: fl_def)
next
  case False
  then have k1: "1 \<le> real k" by simp
  let ?e = "\<lfloor>log 2 (real k)\<rfloor>"
  let ?u = "(2::real) powi (?e - 52)"
  note n = fl_normal[OF k1]
  have e52: "?e \<le> 52"
  proof (rule ccontr)
    assume "\<not> ?e \<le> 52"
    then have "53 \<le> ?e" by simp
    then have "(2::real) powi 53 \<le> 2 powi ?e" by (intro power_int_increasing) simp_all
    then have "(2::real) ^ 53 \<le> real k" using n(2) by simp
    moreover have "real k \<le> 53" using assms by simp
    ultimately show False by simp
  qed
  define j where "j = nat (52 - ?e)"
  have j: "52 - ?e = int j" using e52 by (simp add: j_def)
  have inv: "(2::real) ^ j * ?u = 1"
  proof -
    have "(2::real) ^ j * 2 powi (0 - int j) = 2 powi 0" by (rule powi_scale)
    moreover have "0 - int j = ?e - 52" using j by simp
    ultimately show ?thesis by simp
  qed
  have u: "0 < ?u" by simp
  have "real k / ?u = real k * 2 ^ j" using inv u by (simp add: field_simps)
  also have "\<dots> = real_of_int (int k * 2 ^ j)" by simp
  finally have "round_even (real k / ?u) = int k * 2 ^ j" by (simp only: round_even_of_int)
  then have "fl (real k) = real_of_int (int k * 2 ^ j) * ?u" by (simp only: n(4))
  also have "\<dots> = real k * (2 ^ j * ?u)" by simp
  finally show ?thesis by (simp only: inv mult_1_right)
qed

subsection \<open>The logarithm\<close>

lemma log2_of_like: "log2_like (log2_of lm)"
  using log2_of[of lm] by simp

lemma log2_of_mono: "0 < m \<Longrightarrow> m \<le> n \<Longrightarrow> log2_of lm m \<le> log2_of lm n"
  using log2_of_like[of lm] by (simp add: log2_like_def)

lemma log2_of_power: "log2_of lm (2 ^ k) = real k"
  using log2_of_like[of lm] by (simp add: log2_like_def)

lemma log2_of_near:
  "0 < n \<Longrightarrow> \<bar>log2_of lm n - log 2 (real_of_int n)\<bar> \<le> log 2 (real_of_int n) / 2 ^ 51"
  using log2_of_like[of lm] by (simp add: log2_like_def)

lemma ln_2_ge_half: "1 / 2 \<le> ln (2::real)"
proof -
  have "exp (1 / 2) * exp (1 / 2) = exp (1::real)" by (simp add: mult_exp_exp)
  then have sq: "exp (1 / 2) * exp (1 / 2) \<le> (3::real)" using exp_le by simp
  have "exp (1 / 2) \<le> (2::real)"
  proof (rule ccontr)
    assume "\<not> exp (1 / 2) \<le> (2::real)"
    then have "2 < exp (1 / 2 :: real)" by simp
    then have "2 * 2 < exp (1 / 2 :: real) * exp (1 / 2)" by (intro mult_strict_mono) simp_all
    with sq show False by simp
  qed
  then have "ln (exp (1 / 2)) \<le> ln (2::real)" by (subst ln_le_cancel_iff) simp_all
  then show ?thesis by simp
qed

lemma log2_one_plus_le:
  assumes "0 \<le> (x::real)"
  shows "log 2 (1 + x) \<le> 2 * x"
proof -
  have "ln (1 + x) \<le> x" using assms by (rule ln_add_one_self_le_self)
  also have "x \<le> (2 * x) * ln 2"
  proof -
    have "x * 1 \<le> x * (2 * ln 2)" using ln_2_ge_half assms by (intro mult_left_mono) simp_all
    then show ?thesis by (simp add: mult.assoc mult.left_commute)
  qed
  finally have "ln (1 + x) / ln 2 \<le> 2 * x" by (simp add: pos_divide_le_eq)
  then show ?thesis by (simp add: log_def)
qed

lemma log2_one_plus_ge:
  "1 / 2 ^ k \<le> log 2 (1 + 1 / 2 ^ k)"
proof -
  let ?x = "1 / (2::real) ^ k"
  have "0 \<le> ?x" by simp
  then have "- 1 \<le> ?x" by linarith
  then have "1 + real (2 ^ k) * ?x \<le> (1 + ?x) ^ (2 ^ k)"
    by (rule Bernoulli_inequality)
  then have "2 \<le> (1 + ?x) ^ (2 ^ k)" by simp
  then have "log 2 2 \<le> log 2 ((1 + ?x) ^ (2 ^ k))" by (subst log_le_cancel_iff) simp_all
  then have "1 \<le> real (2 ^ k) * log 2 (1 + ?x)" by (simp add: log_nat_power)
  then show ?thesis by (simp add: field_simps)
qed

lemma log2_succ_power_eq: "log 2 (2 ^ k + 1) = real k + log 2 (1 + 1 / 2 ^ k)"
proof -
  have pos: "(0::real) < 1 + 1 / 2 ^ k" by (simp add: add_pos_nonneg)
  have "(2::real) ^ k + 1 = 2 ^ k * (1 + 1 / 2 ^ k)" by (simp add: field_simps)
  then have "log 2 (2 ^ k + 1) = log 2 (2 ^ k * (1 + 1 / 2 ^ k))" by simp
  also have "\<dots> = log 2 (2 ^ k) + log 2 (1 + 1 / 2 ^ k)"
    using pos by (intro log_mult_pos) simp_all
  also have "log 2 ((2::real) ^ k) = real k" by (simp add: log_nat_power)
  finally show ?thesis .
qed

lemma log2_succ_power: "real k + 1 / 2 ^ k \<le> log 2 (2 ^ k + 1)"
  unfolding log2_succ_power_eq using log2_one_plus_ge[of k] by simp

lemma log2_succ_power_le: "log 2 (2 ^ k + 1) \<le> real k + 2 / 2 ^ k"
  unfolding log2_succ_power_eq using log2_one_plus_le[of "1 / 2 ^ k"] by simp

lemma log2_ge_1: "2 \<le> n \<Longrightarrow> 1 \<le> log 2 (real_of_int n)"
proof -
  assume "2 \<le> n"
  then have "(2::real) \<le> real_of_int n" by simp
  then have "log 2 2 \<le> log 2 (real_of_int n)" by (subst log_le_cancel_iff) simp_all
  then show ?thesis by simp
qed

lemma log2_le_53: "0 < n \<Longrightarrow> n < 2 ^ 53 \<Longrightarrow> log 2 (real_of_int n) \<le> 53"
proof -
  assume n: "0 < n" "n < 2 ^ 53"
  then have "n \<le> 2 ^ 53" by simp
  then have "real_of_int n \<le> real_of_int (2 ^ 53)" by (simp only: of_int_le_iff)
  then have "real_of_int n \<le> 2 powr 53" by simp
  moreover have "0 < real_of_int n" using n(1) by simp
  ultimately show ?thesis by (simp only: log_le_iff[of 2, symmetric, simplified])
qed

lemma log2_ge_53: "2 ^ 53 \<le> n \<Longrightarrow> 53 \<le> log 2 (real_of_int n)"
proof -
  assume "2 ^ 53 \<le> n"
  then have "real_of_int (2 ^ 53) \<le> real_of_int n" by (simp only: of_int_le_iff)
  then have "(2::real) ^ 53 \<le> real_of_int n" by simp
  then have "log 2 (2 ^ 53) \<le> log 2 (real_of_int n)" by (subst log_le_cancel_iff) simp_all
  moreover have "log 2 ((2::real) ^ 53) = real 53" by (subst log_nat_power) simp_all
  ultimately show ?thesis by simp
qed

lemma fl_log2_mono:
  assumes "0 < m" "m \<le> n"
  shows "fl (log 2 (real_of_int m)) \<le> fl (log 2 (real_of_int n))"
proof (cases "m = 1")
  case True
  have "1 \<le> real_of_int n" using assms by simp
  then have "0 \<le> log 2 (real_of_int n)" by simp
  then have "0 \<le> fl (log 2 (real_of_int n))" by (rule fl_nonneg)
  then show ?thesis using True by (simp add: fl_def)
next
  case False
  then have "2 \<le> m" using assms(1) by simp
  then have "1 \<le> log 2 (real_of_int m)" by (rule log2_ge_1)
  moreover have "log 2 (real_of_int m) \<le> log 2 (real_of_int n)" using assms by simp
  ultimately show ?thesis by (rule fl_mono)
qed

lemma log2_of_sample:
  "log2_of sample_log2 n = (if n < 2 ^ 53 then fl (log 2 (real_of_int n)) else log 2 (real_of_int n))"
proof -
  let ?f = "\<lambda>n::int. if n < 2 ^ 53 then fl (log 2 (real_of_int n)) else log 2 (real_of_int n)"
  have f53: "fl 53 = 53" using fl_of_nat[of 53] by simp
  have mono: "?f m \<le> ?f n" if "0 < m" "m \<le> n" for m n
  proof -
    consider "n < 2 ^ 53" | "m < 2 ^ 53" "2 ^ 53 \<le> n" | "2 ^ 53 \<le> m"
      by linarith
    then show ?thesis
    proof cases
      case 1
      then have "m < 2 ^ 53" using that(2) by simp
      then show ?thesis using 1 fl_log2_mono[OF that] by simp
    next
      case 2
      have "fl (log 2 (real_of_int m)) \<le> fl 53"
      proof (cases "m = 1")
        case True
        have "fl (log 2 (real_of_int 1)) = 0" by (simp add: fl_def)
        then show ?thesis unfolding True f53 by simp
      next
        case False
        then have "2 \<le> m" using that(1) by simp
        then have "1 \<le> log 2 (real_of_int m)" by (rule log2_ge_1)
        moreover have "log 2 (real_of_int m) \<le> 53" using that(1) 2(1) by (rule log2_le_53)
        ultimately show ?thesis by (rule fl_mono)
      qed
      then have "fl (log 2 (real_of_int m)) \<le> log 2 (real_of_int n)"
        using log2_ge_53[OF 2(2)] f53 by linarith
      then show ?thesis using 2 by simp
    next
      case 3
      then have "2 ^ 53 \<le> n" using that(2) by simp
      moreover have "log 2 (real_of_int m) \<le> log 2 (real_of_int n)" using that by simp
      ultimately show ?thesis using 3 by simp
    qed
  qed
  have pw: "?f (2 ^ k) = real k" for k
  proof (cases "k < 53")
    case True
    then have "(2::int) ^ k < 2 ^ 53" by (intro power_strict_increasing) simp_all
    moreover have "fl (real k) = real k" using True by (intro fl_of_nat) simp
    ultimately show ?thesis by (simp add: log_nat_power)
  next
    case False
    then have "(2::int) ^ 53 \<le> 2 ^ k" by (intro power_increasing) simp_all
    then show ?thesis by (simp add: log_nat_power)
  qed
  have near: "\<bar>?f n - log 2 (real_of_int n)\<bar> \<le> log 2 (real_of_int n) / 2 ^ 51" if "0 < n" for n
  proof (cases "n < 2 ^ 53")
    case False
    have "1 \<le> real_of_int n" using that by simp
    then have "0 \<le> log 2 (real_of_int n)" by simp
    then show ?thesis using False by simp
  next
    case True
    show ?thesis
    proof (cases "n = 1")
      case True
      then show ?thesis by (simp add: fl_def)
    next
      case False
      then have "2 \<le> n" using that by simp
      then have v: "1 \<le> log 2 (real_of_int n)" by (rule log2_ge_1)
      then have "\<bar>fl (log 2 (real_of_int n)) - log 2 (real_of_int n)\<bar> \<le> log 2 (real_of_int n) / 2 ^ 53"
        by (rule fl_error)
      also have "\<dots> \<le> log 2 (real_of_int n) / 2 ^ 51"
        using v by (intro divide_left_mono) simp_all
      finally show ?thesis using True by simp
    qed
  qed
  have "log2_like ?f"
    unfolding log2_like_def using mono pw near by blast
  then show ?thesis by (simp add: sample_log2_def Abs_mathlib_inverse)
qed

lemma fl_log2_wide: "fl (log 2 (real_of_int (2 ^ 49 + 1))) = 49"
proof -
  let ?v = "log 2 (real_of_int (2 ^ 49 + 1))"
  have lo: "49 \<le> ?v" using log2_succ_power[of 49] by simp
  have hi: "?v \<le> 49 + 1 / 2 ^ 48" using log2_succ_power_le[of 49] by simp
  have e: "fl ?v = real_of_int (round_even (?v / 2 powi (5 - 52))) * 2 powi (5 - 52)"
    using lo hi by (intro fl_eval) simp_all
  have u: "(2::real) powi (5 - 52) = 1 / 2 ^ 47" by (simp add: power_int_minus field_simps)
  have "round_even (?v * 2 ^ 47) = 49 * 2 ^ 47"
  proof (rule round_even_tie)
    show "real_of_int (49 * 2 ^ 47) \<le> ?v * 2 ^ 47" using lo by simp
    show "?v * 2 ^ 47 \<le> real_of_int (49 * 2 ^ 47) + 1 / 2" using hi by simp
    show "even ((49::int) * 2 ^ 47)" by simp
  qed
  then show ?thesis unfolding e u by simp
qed

subsection \<open>The maximum zoom\<close>

lemma ceil_log2_nonneg:
  assumes "1 \<le> t"
  shows "0 \<le> \<lceil>log 2 (real_of_int t)\<rceil>"
proof -
  have "1 \<le> real_of_int t" using assms by simp
  then have "0 \<le> log 2 (real_of_int t)" by simp
  then show ?thesis by (simp add: zero_le_ceiling)
qed

lemma ceil_log2_upper:
  assumes "1 \<le> t"
  shows "t \<le> 2 ^ nat \<lceil>log 2 (real_of_int t)\<rceil>"
proof -
  let ?c = "\<lceil>log 2 (real_of_int t)\<rceil>"
  have c0: "0 \<le> ?c" using assms by (rule ceil_log2_nonneg)
  have pos: "0 < real_of_int t" using assms by simp
  have "(log 2 (real_of_int t) \<le> real_of_int ?c) = (real_of_int t \<le> 2 powr real_of_int ?c)"
    by (rule log_le_iff) (use pos in simp_all)
  then have "real_of_int t \<le> 2 powr (real_of_int ?c)"
    using le_of_int_ceiling[of "log 2 (real_of_int t)"] by (rule iffD1)
  also have "real_of_int ?c = real (nat ?c)" using c0 by simp
  also have "2 powr (real (nat ?c)) = (2::real) ^ nat ?c" by (simp add: powr_realpow)
  finally have "real_of_int t \<le> real_of_int (2 ^ nat ?c)" by simp
  then show ?thesis by (simp only: of_int_le_iff)
qed

lemma ceil_log2_least:
  assumes "1 \<le> t" and "t \<le> 2 ^ k"
  shows "\<lceil>log 2 (real_of_int t)\<rceil> \<le> int k"
proof -
  have "real_of_int t \<le> real_of_int (2 ^ k)" using assms(2) by (simp only: of_int_le_iff)
  then have "real_of_int t \<le> 2 powr (real k)" by (simp add: powr_realpow)
  moreover have "0 < real_of_int t" using assms(1) by simp
  ultimately have "log 2 (real_of_int t) \<le> real k" by (simp add: log_le_iff)
  then show ?thesis by (simp add: ceiling_le_iff)
qed

lemma ceil_log2_lower:
  assumes "1 \<le> t" and "j < nat \<lceil>log 2 (real_of_int t)\<rceil>"
  shows "2 ^ j < t"
proof (rule ccontr)
  assume "\<not> 2 ^ j < t"
  then have "t \<le> 2 ^ j" by simp
  with assms(1) have "\<lceil>log 2 (real_of_int t)\<rceil> \<le> int j" by (rule ceil_log2_least)
  with assms(2) show False by linarith
qed

lemma ceil_log2_eqI:
  assumes "1 \<le> t" "t \<le> 2 ^ k" "\<And>j. j < k \<Longrightarrow> 2 ^ j < t"
  shows "\<lceil>log 2 (real_of_int t)\<rceil> = int k"
proof -
  let ?c = "\<lceil>log 2 (real_of_int t)\<rceil>"
  have le: "?c \<le> int k" using assms(1,2) by (rule ceil_log2_least)
  have c0: "0 \<le> ?c" using assms(1) by (rule ceil_log2_nonneg)
  have "\<not> nat ?c < k"
  proof
    assume "nat ?c < k"
    then have "2 ^ nat ?c < t" by (rule assms(3))
    with ceil_log2_upper[OF assms(1)] show False by simp
  qed
  with le c0 show ?thesis by linarith
qed

lemma ceil_log2_130: "\<lceil>log 2 (real_of_int 130)\<rceil> = 8"
proof -
  have "\<lceil>log 2 (real_of_int 130)\<rceil> = int 8"
  proof (rule ceil_log2_eqI)
    fix j :: nat assume "j < 8"
    then have "j \<le> 7" by simp
    then have "(2::int) ^ j \<le> 2 ^ 7" by (rule power_increasing) simp
    then show "(2::int) ^ j < 130" by simp
  qed simp_all
  then show ?thesis by simp
qed

text \<open>
  Whatever logarithm the library provides, the maximum zoom lies between the ceiling of the
  real logarithm and one less: here the monotonicity and the exactness at the powers of
  two are used.
\<close>

lemma calculate_max_zoom_value:
  "1 \<le> t \<Longrightarrow> calculate_max_zoom lm t = Inr \<lceil>log2_of lm t\<rceil>"
  by (simp add: calculate_max_zoom_def math_log2_def)

lemma log2_of_1: "log2_of lm 1 = 0"
  using log2_of_power[of lm 0] by simp

lemma max_zoom_upper:
  assumes "1 \<le> t"
  shows "\<lceil>log2_of lm t\<rceil> \<le> \<lceil>log 2 (real_of_int t)\<rceil>"
proof -
  let ?c = "nat \<lceil>log 2 (real_of_int t)\<rceil>"
  have c0: "0 \<le> \<lceil>log 2 (real_of_int t)\<rceil>" using assms by (rule ceil_log2_nonneg)
  have "t \<le> 2 ^ ?c" using assms by (rule ceil_log2_upper)
  then have "log2_of lm t \<le> log2_of lm (2 ^ ?c)" using assms by (intro log2_of_mono) simp_all
  then have "log2_of lm t \<le> real ?c" by (simp only: log2_of_power)
  then have "log2_of lm t \<le> real_of_int (int ?c)" by (simp only: of_int_of_nat_eq)
  then have "\<lceil>log2_of lm t\<rceil> \<le> int ?c" by (rule ceiling_le)
  then show ?thesis using c0 by simp
qed

lemma max_zoom_lower:
  assumes "1 \<le> t"
  shows "\<lceil>log 2 (real_of_int t)\<rceil> - 1 \<le> \<lceil>log2_of lm t\<rceil>"
proof -
  let ?c = "nat \<lceil>log 2 (real_of_int t)\<rceil>"
  have c0: "0 \<le> \<lceil>log 2 (real_of_int t)\<rceil>" using assms by (rule ceil_log2_nonneg)
  show ?thesis
  proof (cases ?c)
    case 0
    have "log2_of lm 1 \<le> log2_of lm t" using assms by (intro log2_of_mono) simp_all
    then have "0 \<le> log2_of lm t" by (simp only: log2_of_1)
    then have "0 \<le> \<lceil>log2_of lm t\<rceil>" by (simp add: zero_le_ceiling)
    then show ?thesis using 0 c0 by linarith
  next
    case (Suc k)
    then have "k < ?c" by simp
    with assms have "2 ^ k < t" by (rule ceil_log2_lower)
    then have "log2_of lm (2 ^ k) \<le> log2_of lm t" by (intro log2_of_mono) simp_all
    then have "real k \<le> log2_of lm t" by (simp only: log2_of_power)
    then have "real k \<le> real_of_int \<lceil>log2_of lm t\<rceil>"
      using le_of_int_ceiling[of "log2_of lm t"] by linarith
    then have "real_of_int (int k) \<le> real_of_int \<lceil>log2_of lm t\<rceil>" by simp
    then have "int k \<le> \<lceil>log2_of lm t\<rceil>" by (simp only: of_int_le_iff)
    then show ?thesis using Suc c0 by linarith
  qed
qed

lemma max_zoom_nonneg:
  assumes "1 \<le> t"
  shows "0 \<le> \<lceil>log2_of lm t\<rceil>"
proof -
  have "log2_of lm 1 \<le> log2_of lm t" using assms by (intro log2_of_mono) simp_all
  then have "0 \<le> log2_of lm t" by (simp only: log2_of_1)
  then show ?thesis by (simp add: zero_le_ceiling)
qed

text \<open>
  Below \<open>2^46\<close> the error of the logarithm is smaller than the distance of the exact
  logarithm from the integer below it, so the maximum zoom is the exact ceiling.
\<close>

lemma max_zoom_exact:
  assumes "1 \<le> t" "t < 2 ^ 46"
  shows "\<lceil>log2_of lm t\<rceil> = \<lceil>log 2 (real_of_int t)\<rceil>"
proof -
  let ?L = "log 2 (real_of_int t)"
  let ?c = "nat \<lceil>?L\<rceil>"
  have c0: "0 \<le> \<lceil>?L\<rceil>" using assms(1) by (rule ceil_log2_nonneg)
  have up: "\<lceil>log2_of lm t\<rceil> \<le> \<lceil>?L\<rceil>" using assms(1) by (rule max_zoom_upper)
  show ?thesis
  proof (cases ?c)
    case 0
    then show ?thesis using up c0 max_zoom_nonneg[OF assms(1), of lm] by linarith
  next
    case (Suc k)
    then have "k < ?c" by simp
    with assms(1) have lt: "2 ^ k < t" by (rule ceil_log2_lower)
    have k45: "k \<le> 45"
    proof (rule ccontr)
      assume "\<not> k \<le> 45"
      then have "46 \<le> k" by simp
      then have "(2::int) ^ 46 \<le> 2 ^ k" by (rule power_increasing) simp
      with lt assms(2) show False by linarith
    qed
    have "2 ^ k + 1 \<le> t" using lt by simp
    then have "real_of_int (2 ^ k + 1) \<le> real_of_int t" by (simp only: of_int_le_iff)
    then have "(2::real) ^ k + 1 \<le> real_of_int t" by simp
    moreover have "0 < real_of_int t" using assms(1) by simp
    ultimately have "log 2 (2 ^ k + 1) \<le> ?L"
      by (subst log_le_cancel_iff) (simp_all add: add_pos_pos)
    then have lo: "real k + 1 / 2 ^ k \<le> ?L" using log2_succ_power[of k] by linarith
    have "?L \<le> real_of_int \<lceil>?L\<rceil>" by (rule le_of_int_ceiling)
    also have "real_of_int \<lceil>?L\<rceil> = real k + 1" using Suc c0 by (simp add: of_nat_nat[symmetric] del: of_nat_nat)
    finally have hi: "?L \<le> real k + 1" .
    have "real k + 1 \<le> 46" using k45 by simp
    then have "?L / 2 ^ 51 \<le> 46 / 2 ^ 51" using hi by (intro divide_right_mono) simp_all
    also have "(46::real) / 2 ^ 51 < 1 / 2 ^ 45" by simp
    also have "(1::real) / 2 ^ 45 \<le> 1 / 2 ^ k"
      using k45 by (intro divide_left_mono power_increasing) simp_all
    finally have small: "?L / 2 ^ 51 < 1 / 2 ^ k" .
    have "\<bar>log2_of lm t - ?L\<bar> \<le> ?L / 2 ^ 51" using assms(1) by (intro log2_of_near) simp
    then have "real k < log2_of lm t" using small lo by linarith
    then have "real k < real_of_int \<lceil>log2_of lm t\<rceil>"
      using le_of_int_ceiling[of "log2_of lm t"] by linarith
    then have "real_of_int (int k) < real_of_int \<lceil>log2_of lm t\<rceil>" by simp
    then have "int k < \<lceil>log2_of lm t\<rceil>" by (simp only: of_int_less_iff)
    then show ?thesis using up Suc c0 by linarith
  qed
qed

lemma max_zoom_power: "\<lceil>log2_of lm (2 ^ k)\<rceil> = \<lceil>log 2 (real_of_int (2 ^ k))\<rceil>"
  by (simp add: log2_of_power log_nat_power)

lemma calculate_max_zoom_130: "calculate_max_zoom lm 130 = Inr 8"
  using max_zoom_exact[of 130 lm] ceil_log2_130
  by (simp add: calculate_max_zoom_value)

lemma init_reference: "init lm 13 542 100 = Inr reference_generator"
  by (simp add: init_def py_floordiv_def calculate_max_zoom_130 py_truediv_def
      reference_generator_def)

lemma ceil_log2_wide: "\<lceil>log 2 (real_of_int (2 ^ 49 + 1))\<rceil> = 50"
proof -
  have "\<lceil>log 2 (real_of_int (2 ^ 49 + 1))\<rceil> = int 50"
  proof (rule ceil_log2_eqI)
    fix j :: nat assume "j < 50"
    then have "j \<le> 49" by simp
    then have "(2::int) ^ j \<le> 2 ^ 49" by (rule power_increasing) simp
    then show "(2::int) ^ j < 2 ^ 49 + 1" by simp
  qed simp_all
  then show ?thesis by simp
qed

text \<open>
  C7, as the claim states it, fails: with the logarithm rounded to the nearest double,
  which gives 49 at \<open>2^49 + 1\<close> as the C library's does, the maximum zoom of \<open>2^49 + 1\<close>
  tiles per axis is 49, while the ceiling of the binary logarithm is 50 and \<open>2^49\<close> is
  less than the number of tiles.
\<close>

theorem calculate_max_zoom_counterexample:
  "calculate_max_zoom sample_log2 (2 ^ 49 + 1) = Inr 49
   \<and> \<lceil>log 2 (real_of_int (2 ^ 49 + 1))\<rceil> = 50
   \<and> \<not> ((2::int) ^ 49 + 1 \<le> 2 ^ 49)"
  using ceil_log2_wide fl_log2_wide
  by (simp add: calculate_max_zoom_def math_log2_def log2_of_sample)

text \<open>
  C7, amended. For every \<open>tiles_per_axis\<close> of at least 1 \<open>_calculate_max_zoom\<close> returns a
  natural number that is the ceiling of the binary logarithm or one less. For every
  \<open>tiles_per_axis\<close> below \<open>2^46\<close>, and for every power of two, it is the ceiling itself,
  that is, the least exponent \<open>z\<close> with \<open>tiles_per_axis \<le> 2 ^ z\<close>; for 130 tiles per
  axis this is 8, as the instance below derives.
\<close>

theorem calculate_max_zoom_ceil_log2:
  assumes "1 \<le> t"
  shows "\<exists>z. calculate_max_zoom lm t = Inr (int z)
           \<and> \<lceil>log 2 (real_of_int t)\<rceil> - 1 \<le> int z \<and> int z \<le> \<lceil>log 2 (real_of_int t)\<rceil>
           \<and> (t < 2 ^ 46 \<or> (\<exists>k. t = 2 ^ k) \<longrightarrow>
                int z = \<lceil>log 2 (real_of_int t)\<rceil> \<and> t \<le> 2 ^ z \<and> (\<forall>k. t \<le> 2 ^ k \<longrightarrow> z \<le> k))"
proof -
  let ?m = "\<lceil>log2_of lm t\<rceil>"
  let ?c = "\<lceil>log 2 (real_of_int t)\<rceil>"
  have m0: "0 \<le> ?m" using assms by (rule max_zoom_nonneg)
  have a: "calculate_max_zoom lm t = Inr (int (nat ?m))"
    using assms m0 by (simp add: calculate_max_zoom_value)
  have lo: "?c - 1 \<le> int (nat ?m)" using max_zoom_lower[OF assms, of lm] m0 by simp
  have hi: "int (nat ?m) \<le> ?c" using max_zoom_upper[OF assms, of lm] m0 by simp
  have ex: "int (nat ?m) = ?c \<and> t \<le> 2 ^ nat ?m \<and> (\<forall>k. t \<le> 2 ^ k \<longrightarrow> nat ?m \<le> k)"
    if "t < 2 ^ 46 \<or> (\<exists>k. t = 2 ^ k)"
  proof -
    have eq: "?m = ?c"
      using that
    proof
      assume "t < 2 ^ 46"
      with assms show ?thesis by (rule max_zoom_exact)
    next
      assume "\<exists>k. t = 2 ^ k"
      then obtain k where "t = 2 ^ k" ..
      then show ?thesis by (simp only: max_zoom_power)
    qed
    have b: "t \<le> 2 ^ nat ?m" unfolding eq using assms by (rule ceil_log2_upper)
    have c: "\<forall>k. t \<le> 2 ^ k \<longrightarrow> nat ?m \<le> k"
      unfolding eq using ceil_log2_least[OF assms] by (auto simp: nat_le_iff)
    from eq m0 b c show ?thesis by simp
  qed
  from a lo hi ex show ?thesis by (intro exI[of _ "nat ?m"]) blast
qed

theorem calculate_max_zoom_ceil_log2_witness:
  "(1::int) \<le> 130 \<and> (130::int) < 2 ^ 46 \<and> calculate_max_zoom sample_log2 130 = Inr 8"
proof -
  from calculate_max_zoom_ceil_log2[of 130 sample_log2]
  obtain z where z: "calculate_max_zoom sample_log2 130 = Inr (int z)" "(130::int) \<le> 2 ^ z"
    "\<forall>k. (130::int) \<le> 2 ^ k \<longrightarrow> z \<le> k" by auto
  from z(3) have "z \<le> 8" by simp
  moreover have "\<not> z \<le> 7"
  proof
    assume "z \<le> 7"
    then have "(2::int) ^ z \<le> 2 ^ 7" by (rule power_increasing) simp
    with z(2) show False by simp
  qed
  ultimately have "z = 8" by simp
  with z(1) show ?thesis by simp
qed

subsection \<open>Construction\<close>

text \<open>
  C10, as the claim states it, fails: with 130 tiles per axis and a tile size of 0 the
  constructor raises ZeroDivisionError at the print of the resolution.
\<close>

theorem init_zero_tile_size_counterexample:
  "py_floordiv (13 * 1000) 100 = Inr 130 \<and> (1::int) \<le> 130
   \<and> init sample_log2 13 0 100 = Inl ZeroDivisionError"
  by (simp add: init_def py_floordiv_def calculate_max_zoom_130 py_truediv_def)

text \<open>
  C10, amended. A constructed generator has \<open>tiles_per_axis = map_size_m // meters_per_tile\<close>
  of at least 1. When \<open>0 \<le> map_size_m < meters_per_tile\<close> the floor division gives 0 and the
  constructor raises the math domain error of \<open>log2(0)\<close>. Construction succeeds for every
  configuration with a non-zero \<open>meters_per_tile\<close>, at least one tile per axis, a non-zero
  tile size and a resolution \<open>(meters_per_tile * 100) / tile_size_px\<close> inside the range of a
  double.
\<close>

theorem init_succeeds:
  "(init lm s ts mpt = Inr g \<longrightarrow> tiles_per_axis g = (s * 1000) div mpt \<and> 1 \<le> tiles_per_axis g)
   \<and> (0 \<le> s * 1000 \<and> s * 1000 < mpt \<longrightarrow> init lm s ts mpt = Inl ValueError)
   \<and> (mpt \<noteq> 0 \<and> 1 \<le> (s * 1000) div mpt \<and> ts \<noteq> 0
        \<and> \<bar>mpt * 100\<bar> < (2 ^ 1024 - 2 ^ 970) * \<bar>ts\<bar> \<longrightarrow> (\<exists>g'. init lm s ts mpt = Inr g'))"
proof (intro conjI impI)
  assume "init lm s ts mpt = Inr g"
  then show "tiles_per_axis g = (s * 1000) div mpt"
    by (auto simp: init_def py_floordiv_def calculate_max_zoom_def math_log2_def py_truediv_def
        Let_def split: if_splits sum.splits)
next
  assume "init lm s ts mpt = Inr g"
  then show "1 \<le> tiles_per_axis g"
    by (auto simp: init_def py_floordiv_def calculate_max_zoom_def math_log2_def py_truediv_def
        Let_def split: if_splits sum.splits)
next
  assume a: "0 \<le> s * 1000 \<and> s * 1000 < mpt"
  then have "(s * 1000) div mpt = 0" by (simp add: div_pos_pos_trivial)
  with a show "init lm s ts mpt = Inl ValueError"
    by (auto simp: init_def py_floordiv_def calculate_max_zoom_def math_log2_def Let_def)
next
  assume "mpt \<noteq> 0 \<and> 1 \<le> (s * 1000) div mpt \<and> ts \<noteq> 0
        \<and> \<bar>mpt * 100\<bar> < (2 ^ 1024 - 2 ^ 970) * \<bar>ts\<bar>"
  then show "\<exists>g'. init lm s ts mpt = Inr g'"
    by (simp add: init_def py_floordiv_def calculate_max_zoom_def math_log2_def py_truediv_def
        Let_def)
qed

theorem init_succeeds_witness:
  "init sample_log2 13 542 20000 = Inl ValueError \<and> (\<exists>g'. init sample_log2 13 542 100 = Inr g')
   \<and> tiles_per_axis reference_generator = 130"
  using init_succeeds[of sample_log2 13 542 20000]
    init_succeeds[of sample_log2 13 542 100 reference_generator] init_reference[of sample_log2]
  by simp

subsection \<open>The crop window size\<close>

lemma float_of_int_100: "float_of_int 100 = Inr 100"
  by (simp add: float_of_int_def fl_100)


lemma fl_7410: "fl (7410 / 13000) = 5134103575202365 / 2 ^ 53"
  using fl_eval[of "- 1" "7410 / 13000"] by (simp add: round_even_def)

lemma fl_7410_product: "fl (100 * (5134103575202365 / 2 ^ 53)) = 8022036836253695 / 2 ^ 47"
  using fl_eval[of 5 "100 * (5134103575202365 / 2 ^ 53)"] by (simp add: round_even_def)

lemma fl_13070: "fl (13070 / 13000) = 4527849779210183 / 2 ^ 52"
  using fl_eval[of 0 "13070 / 13000"] by (simp add: round_even_def)

lemma fl_13070_product: "fl (100 * (4527849779210183 / 2 ^ 52)) = 7074765280015911 / 2 ^ 46"
  using fl_eval[of 6 "100 * (4527849779210183 / 2 ^ 52)"] by (simp add: round_even_def)

lemma tile_source_size_7410: "tile_source_size 100 (5134103575202365 / 2 ^ 53) = Inr 56"
  unfolding tile_source_size_def float_of_int_100 sum.case Let_def fl_7410_product
  by (simp add: py_int_def)

lemma tile_source_size_13070: "tile_source_size 100 (4527849779210183 / 2 ^ 52) = Inr 100"
  unfolding tile_source_size_def float_of_int_100 sum.case Let_def fl_13070_product
  by (simp add: py_int_def)

text \<open>
  C2, as the claim states it, fails: for a source 13070 pixels wide on a 13000 m map with
  100 m tiles the float product is about 100.54, the base tiler takes 100 and rounding to
  the nearest integer gives 101.
\<close>

theorem tile_source_size_round_counterexample:
  "py_truediv 13070 13000 = Inr (4527849779210183 / 2 ^ 52)
   \<and> fl (100 * (4527849779210183 / 2 ^ 52)) = 7074765280015911 / 2 ^ 46
   \<and> tile_source_size 100 (4527849779210183 / 2 ^ 52) = Inr 100
   \<and> round (7074765280015911 / 2 ^ 46 :: real) = 101
   \<and> round (real_of_int 100 * (13070 / 13000)) = (101::int)"
  using fl_13070 fl_13070_product tile_source_size_13070
  by (simp add: py_truediv_def round_def)

lemma floor_round_low:
  fixes p :: real
  assumes "frac p < 1 / 2"
  shows "\<lfloor>p\<rfloor> = round p"
proof -
  have "real_of_int \<lfloor>p\<rfloor> \<le> p + 1 / 2" "p + 1 / 2 < real_of_int \<lfloor>p\<rfloor> + 1"
    using assms by (simp_all add: frac_def) linarith+
  then have "\<lfloor>p + 1 / 2\<rfloor> = \<lfloor>p\<rfloor>" by (intro floor_unique) simp_all
  then show ?thesis by (simp add: round_def)
qed

lemma floor_round_high:
  fixes p :: real
  assumes "1 / 2 < frac p"
  shows "\<lfloor>p\<rfloor> = round p - 1"
proof -
  have "real_of_int (\<lfloor>p\<rfloor> + 1) \<le> p + 1 / 2" "p + 1 / 2 < real_of_int (\<lfloor>p\<rfloor> + 1) + 1"
    using assms by (simp_all add: frac_def) linarith+
  then have "\<lfloor>p + 1 / 2\<rfloor> = \<lfloor>p\<rfloor> + 1" by (intro floor_unique) simp_all
  then show ?thesis by (simp add: round_def)
qed

text \<open>
  C2, amended. The base tiler computes \<open>tile_source_size = int(meters_per_tile *
  pixels_per_meter)\<close> with \<open>pixels_per_meter = source_width / map_size_m\<close>: the float
  product is truncated, not rounded. For a non-negative width, a positive map size and a
  non-negative \<open>meters_per_tile\<close> the statement raises OverflowError when
  \<open>meters_per_tile\<close> or the product is beyond the doubles, and otherwise the result is
  the floor of the float product; the floor is the nearest integer when the fractional
  part of the product is below one half and one less than the nearest integer when the
  fractional part is above one half. The float product is the rounded product of the
  rounded quotient, so it can lie below an exact product that is an integer: for a width
  of 7410 on a 13000 m map with 100 m tiles the exact product is 57, the float product is
  56.99999999999999 and the result is 56.
\<close>

theorem tile_source_size_truncates:
  assumes "0 \<le> w" "0 < m" "0 \<le> mpt" "py_truediv w m = Inr ppm"
  shows "\<exists>product. ppm = fl (real_of_int w / real_of_int m)
     \<and> product = fl (fl (real_of_int mpt) * ppm)
     \<and> 0 \<le> product
     \<and> tile_source_size mpt ppm =
         (if 2 ^ 1024 - 2 ^ 970 \<le> mpt \<or> 2 ^ 1024 \<le> product then Inl OverflowError
          else Inr \<lfloor>product\<rfloor>)
     \<and> real_of_int \<lfloor>product\<rfloor> \<le> product \<and> product < real_of_int \<lfloor>product\<rfloor> + 1
     \<and> (frac product < 1 / 2 \<longrightarrow> \<lfloor>product\<rfloor> = round product)
     \<and> (1 / 2 < frac product \<longrightarrow> \<lfloor>product\<rfloor> = round product - 1)"
proof -
  let ?p = "fl (fl (real_of_int mpt) * ppm)"
  have ppm: "ppm = fl (real_of_int w / real_of_int m)"
    using assms(4) by (auto simp: py_truediv_def split: if_splits)
  have "0 \<le> real_of_int w / real_of_int m" using assms(1,2) by simp
  then have ppm0: "0 \<le> ppm" unfolding ppm by (rule fl_nonneg)
  have "0 \<le> fl (real_of_int mpt)" using assms(3) by (intro fl_nonneg) simp
  then have "0 \<le> fl (real_of_int mpt) * ppm" using ppm0 by (rule mult_nonneg_nonneg)
  then have p0: "0 \<le> ?p" by (rule fl_nonneg)
  have t: "tile_source_size mpt ppm =
         (if 2 ^ 1024 - 2 ^ 970 \<le> mpt \<or> 2 ^ 1024 \<le> ?p then Inl OverflowError
          else Inr \<lfloor>?p\<rfloor>)"
    using assms(3) p0 by (simp add: tile_source_size_def float_of_int_def py_int_def Let_def)
  have lo: "real_of_int \<lfloor>?p\<rfloor> \<le> ?p" by (rule of_int_floor_le)
  have hi: "?p < real_of_int \<lfloor>?p\<rfloor> + 1" by linarith
  have low: "frac ?p < 1 / 2 \<longrightarrow> \<lfloor>?p\<rfloor> = round ?p" using floor_round_low by blast
  have high: "1 / 2 < frac ?p \<longrightarrow> \<lfloor>?p\<rfloor> = round ?p - 1" using floor_round_high by blast
  from ppm p0 t lo hi low high show ?thesis by blast
qed

theorem tile_source_size_truncates_witness:
  "py_truediv 7410 13000 = Inr (5134103575202365 / 2 ^ 53)
   \<and> fl (fl (real_of_int 100) * (5134103575202365 / 2 ^ 53)) = 8022036836253695 / 2 ^ 47
   \<and> tile_source_size 100 (5134103575202365 / 2 ^ 53) = Inr 56
   \<and> (56::int) = round (8022036836253695 / 2 ^ 47 :: real) - 1
   \<and> real_of_int 100 * (7410 / 13000) = 57"
proof -
  have q: "py_truediv 7410 13000 = Inr (5134103575202365 / 2 ^ 53)"
    using fl_7410 by (simp add: py_truediv_def)
  from tile_source_size_truncates[OF _ _ _ q, of 100]
  obtain product where p: "product = fl (fl (real_of_int 100) * (5134103575202365 / 2 ^ 53))"
    and t: "tile_source_size 100 (5134103575202365 / 2 ^ 53) =
         (if 2 ^ 1024 - 2 ^ 970 \<le> (100::int) \<or> 2 ^ 1024 \<le> product then Inl OverflowError
          else Inr \<lfloor>product\<rfloor>)"
    and r: "1 / 2 < frac product \<longrightarrow> \<lfloor>product\<rfloor> = round product - 1"
    by auto
  have v: "product = 8022036836253695 / 2 ^ 47"
    unfolding p of_int_numeral fl_100 fl_7410_product by (rule refl)
  have f: "\<lfloor>8022036836253695 / 2 ^ 47 :: real\<rfloor> = 56" by simp
  have s: "tile_source_size 100 (5134103575202365 / 2 ^ 53) = Inr 56"
    unfolding t v f by simp
  have "1 / 2 < frac (8022036836253695 / 2 ^ 47 :: real)" by (simp add: frac_def)
  with r v f have "(56::int) = round (8022036836253695 / 2 ^ 47 :: real) - 1" by simp
  with q s p v show ?thesis by simp
qed

subsection \<open>Frames of the loops\<close>

lemma for_each_preserves:
  assumes "for_each body xs st = (r, st')" "P st"
    and "\<And>x s r s'. x \<in> set xs \<Longrightarrow> P s \<Longrightarrow> body x s = (r, s') \<Longrightarrow> P s'"
  shows "P st'"
  using assms
proof (induction xs arbitrary: st)
  case Nil
  then show ?case by simp
next
  case (Cons x xs)
  obtain r1 s1 where b: "body x st = (r1, s1)" by (cases "body x st")
  have "x \<in> set (x # xs)" by simp
  then have p1: "P s1" using Cons.prems(2) b by (rule Cons.prems(3))
  have step: "\<And>y s r s'. y \<in> set xs \<Longrightarrow> P s \<Longrightarrow> body y s = (r, s') \<Longrightarrow> P s'"
  proof -
    fix y s r s' assume "y \<in> set xs" "P s" "body y s = (r, s')"
    moreover from this(1) have "y \<in> set (x # xs)" by simp
    ultimately show "P s'" using Cons.prems(3) by blast
  qed
  show ?case
  proof (cases r1)
    case Ok
    then have "for_each body xs s1 = (r, st')" using Cons.prems(1) b by simp
    then show ?thesis using p1 step by (rule Cons.IH)
  next
    case (Raised e)
    then have "st' = s1" using Cons.prems(1) b by simp
    then show ?thesis using p1 by simp
  qed
qed

lemma zoom_tile_step_frame:
  assumes "zoom_tile_step lib g z x y st = (r, st')" "k \<noteq> (z, x, y)"
  shows "tiles st' k = tiles st k"
  using assms by (auto simp: zoom_tile_step_def split: sum.splits option.splits)

lemma generate_zoom_level_frame:
  assumes "generate_zoom_level lib g z st = (r, st')" "fst k \<noteq> z"
  shows "tiles st' k = tiles st k"
proof (cases "tiles_this_level g z < 1")
  case True
  then show ?thesis using assms(1) by (simp add: generate_zoom_level_def)
next
  case False
  let ?P = "\<lambda>s. tiles s k = tiles st k"
  have inner: "?P s'" if "?P s" "for_each (zoom_tile_step lib g z x) ys s = (r', s')" for x ys s r' s'
    using that(2) that(1)
  proof (rule for_each_preserves[where P = ?P])
    fix y s1 r1 s1'
    assume p: "?P s1" and b: "zoom_tile_step lib g z x y s1 = (r1, s1')"
    have "k \<noteq> (z, x, y)" using assms(2) by auto
    with b have "tiles s1' k = tiles s1 k" by (rule zoom_tile_step_frame)
    with p show "?P s1'" by simp
  qed
  from False assms(1) have "for_each (\<lambda>tile_x. for_each (zoom_tile_step lib g z tile_x)
       (py_range 0 (tiles_this_level g z))) (py_range 0 (tiles_this_level g z)) st = (r, st')"
    by (simp add: generate_zoom_level_def)
  then show ?thesis
  proof (rule for_each_preserves[where P = ?P])
    show "?P st" by simp
  next
    fix x s r1 s1
    assume "?P s" "for_each (zoom_tile_step lib g z x) (py_range 0 (tiles_this_level g z)) s = (r1, s1)"
    then show "?P s1" by (rule inner)
  qed
qed

lemma generate_zoom_level_empty:
  "tiles_this_level g z < 1 \<Longrightarrow> generate_zoom_level lib g z st = (Ok, st)"
  by (simp add: generate_zoom_level_def)

lemma base_tile_step_frame:
  assumes "base_tile_step lib g img tss x y st = (r, st')" "fst k \<noteq> 0"
  shows "tiles st' k = tiles st k"
  using assms by (auto simp: base_tile_step_def split: option.splits)

lemma base_grid_frame:
  assumes "for_each (\<lambda>tile_x. for_each (base_tile_step lib g img tss tile_x) ys) xs st = (r, st')"
    and "fst k \<noteq> 0"
  shows "tiles st' k = tiles st k"
proof -
  let ?P = "\<lambda>s. tiles s k = tiles st k"
  have inner: "?P s'" if "?P s" "for_each (base_tile_step lib g img tss x) ys s = (r', s')"
    for x s r' s'
    using that(2) that(1)
  proof (rule for_each_preserves[where P = ?P])
    fix y s1 r1 s1'
    assume p: "?P s1" and b: "base_tile_step lib g img tss x y s1 = (r1, s1')"
    from b assms(2) have "tiles s1' k = tiles s1 k" by (rule base_tile_step_frame)
    with p show "?P s1'" by simp
  qed
  from assms(1) show ?thesis
  proof (rule for_each_preserves[where P = ?P])
    show "?P st" by simp
  next
    fix x s r1 s1
    assume "?P s" "for_each (base_tile_step lib g img tss x) ys s = (r1, s1)"
    then show "?P s1" by (rule inner)
  qed
qed

lemma generate_base_tiles_frame:
  assumes "generate_base_tiles lib g src st = (r, st')" "fst k \<noteq> 0"
  shows "tiles st' k = tiles st k"
proof (cases src)
  case Missing
  then show ?thesis using assms(1) by (simp add: generate_base_tiles_def)
next
  case NotAnImage
  then show ?thesis using assms(1) by (simp add: generate_base_tiles_def)
next
  case (Raster img)
  show ?thesis
  proof (cases "py_truediv (size_w img) (map_size_m g)")
    case (Inl e)
    then show ?thesis using assms(1) Raster by (simp add: generate_base_tiles_def)
  next
    case ppm: (Inr ppm)
    show ?thesis
    proof (cases "tile_source_size (meters_per_tile g) ppm")
      case (Inl e)
      then show ?thesis using assms(1) Raster ppm by (simp add: generate_base_tiles_def)
    next
      case (Inr tss)
      with ppm Raster assms(1)
      have "for_each (\<lambda>tile_x. for_each (base_tile_step lib g img tss tile_x)
           (py_range 0 (tiles_per_axis g))) (py_range 0 (tiles_per_axis g)) st = (r, st')"
        by (simp add: generate_base_tiles_def)
      then show ?thesis using assms(2) by (rule base_grid_frame)
    qed
  qed
qed

lemma zoom_levels_frame:
  assumes "for_each (generate_zoom_level lib g) zs st = (r, st')"
    and "\<And>z. z \<in> set zs \<Longrightarrow> fst k \<noteq> z \<or> tiles_this_level g z < 1"
  shows "tiles st' k = tiles st k"
  using assms(1)
proof (rule for_each_preserves[where P = "\<lambda>s. tiles s k = tiles st k"])
  show "tiles st k = tiles st k" by simp
next
  fix z s r1 s1
  assume z: "z \<in> set zs" and p: "tiles s k = tiles st k"
    and b: "generate_zoom_level lib g z s = (r1, s1)"
  show "tiles s1 k = tiles st k"
  proof (cases "tiles_this_level g z < 1")
    case True
    then show ?thesis using b p by (simp add: generate_zoom_level_def)
  next
    case False
    then have "fst k \<noteq> z" using assms(2)[OF z] by simp
    with b have "tiles s1 k = tiles s k" by (rule generate_zoom_level_frame)
    then show ?thesis using p by simp
  qed
qed

lemma and_then_preserves_snd:
  assumes "P (snd r)" and "\<And>s r1 s1. P s \<Longrightarrow> f s = (r1, s1) \<Longrightarrow> P s1"
  shows "P (snd (and_then r f))"
proof (cases r)
  case (Pair oc s)
  show ?thesis
  proof (cases oc)
    case Ok
    obtain r1 s1 where f: "f s = (r1, s1)" by (cases "f s")
    have "P s" using assms(1) Pair by simp
    then have "P s1" using f by (rule assms(2))
    then show ?thesis using Pair Ok f by (simp add: and_then_def)
  next
    case (Raised e)
    then show ?thesis using assms(1) Pair by (simp add: and_then_def)
  qed
qed

lemma generate_metadata_tiles: "generate_metadata g s = (r, s') \<Longrightarrow> tiles s' = tiles s"
  by (auto simp: generate_metadata_def split: sum.splits)

lemma generate_leaflet_config_tiles: "generate_leaflet_config g s = (r, s') \<Longrightarrow> tiles s' = tiles s"
  by (auto simp: generate_leaflet_config_def split: sum.splits if_splits)

lemma print_statistics_tiles: "print_statistics s = (r, s') \<Longrightarrow> tiles s' = tiles s"
  by (auto simp: print_statistics_def split: if_splits)

lemma generate_all_tiles_frame:
  assumes "fst k \<noteq> 0"
    and "\<And>z. z \<in> set (py_range 1 (max_zoom g + 1)) \<Longrightarrow> fst k \<noteq> z \<or> tiles_this_level g z < 1"
  shows "tiles (snd (generate_all_tiles lib g src st)) k = tiles st k"
  unfolding generate_all_tiles_def
proof (intro and_then_preserves_snd[where P = "\<lambda>s. tiles s k = tiles st k"])
  obtain r0 s0 where b: "generate_base_tiles lib g src st = (r0, s0)"
    by (cases "generate_base_tiles lib g src st")
  from b assms(1) have "tiles s0 k = tiles st k" by (rule generate_base_tiles_frame)
  then show "tiles (snd (generate_base_tiles lib g src st)) k = tiles st k" by (simp add: b)
next
  fix s r1 s1 assume p: "tiles s k = tiles st k" and z: "zoom_loop lib g s = (r1, s1)"
  from z have "for_each (generate_zoom_level lib g) (py_range 1 (max_zoom g + 1)) s = (r1, s1)"
    by (simp add: zoom_loop_def)
  then have "tiles s1 k = tiles s k" using assms(2) by (rule zoom_levels_frame)
  with p show "tiles s1 k = tiles st k" by simp
next
  fix s r1 s1 assume "tiles s k = tiles st k" "generate_metadata g s = (r1, s1)"
  then show "tiles s1 k = tiles st k" by (simp add: generate_metadata_tiles)
next
  fix s r1 s1 assume "tiles s k = tiles st k" "generate_leaflet_config g s = (r1, s1)"
  then show "tiles s1 k = tiles st k" by (simp add: generate_leaflet_config_tiles)
next
  fix s r1 s1 assume "tiles s k = tiles st k" "print_statistics s = (r1, s1)"
  then show "tiles s1 k = tiles st k" by (simp add: print_statistics_tiles)
qed

subsection \<open>The zoom levels\<close>

lemma init_fields:
  assumes "init lm s ts mpt = Inr g"
  shows "1 \<le> tiles_per_axis g"
    and "max_zoom g = \<lceil>log2_of lm (tiles_per_axis g)\<rceil>"
    and "\<exists>res. py_truediv (meters_per_tile g * 100) (tile_size_px g) = Inr res"
  using assms
  by (auto simp: init_def py_floordiv_def calculate_max_zoom_def math_log2_def Let_def
      split: if_splits sum.splits)

lemma level_positive:
  fixes t :: int
  assumes "2 ^ j \<le> t"
  shows "1 \<le> t div 2 ^ j"
proof -
  have "0 < t div 2 ^ j" using assms by (simp add: pos_imp_zdiv_pos_iff)
  then show ?thesis by simp
qed

lemma level_decreases:
  fixes t :: int
  assumes "2 ^ j \<le> t"
  shows "t div 2 ^ Suc j < t div 2 ^ j"
proof -
  have p: "1 \<le> t div 2 ^ j" using assms by (rule level_positive)
  have "t div 2 ^ Suc j = t div (2 ^ j * 2)" by (simp add: mult.commute)
  also have "\<dots> = (t div 2 ^ j) div 2" by (rule zdiv_zmult2_eq) simp
  also have "\<dots> < t div 2 ^ j" using p by simp
  finally show ?thesis .
qed

lemma level_below:
  fixes t :: int
  assumes "0 \<le> t" "t < 2 * 2 ^ n"
  shows "t div 2 ^ n \<le> 1"
proof (rule ccontr)
  assume "\<not> t div 2 ^ n \<le> 1"
  then have "2 \<le> t div 2 ^ n" by simp
  then have "2 * 2 ^ n \<le> (t div 2 ^ n) * 2 ^ n" by (intro mult_right_mono) simp_all
  moreover have "t = (t div 2 ^ n) * 2 ^ n + t mod 2 ^ n" by (rule div_mult_mod_eq[symmetric])
  moreover have "0 \<le> t mod (2::int) ^ n" by simp
  ultimately show False using assms(2) by linarith
qed

text \<open>
  With the maximum zoom that any library gives, every level below the maximum holds at
  least one tile per axis and the level of the maximum zoom holds at most one.
\<close>

lemma below_max_zoom:
  assumes "1 \<le> t" "j < nat \<lceil>log2_of lm t\<rceil>"
  shows "2 ^ j \<le> t"
proof -
  have "nat \<lceil>log2_of lm t\<rceil> \<le> nat \<lceil>log 2 (real_of_int t)\<rceil>"
    using max_zoom_upper[OF assms(1), of lm] by (rule nat_mono)
  with assms(2) have "j < nat \<lceil>log 2 (real_of_int t)\<rceil>" by (rule less_le_trans)
  with assms(1) have "2 ^ j < t" by (rule ceil_log2_lower)
  then show ?thesis by simp
qed

lemma at_max_zoom:
  assumes "1 \<le> t"
  shows "t div 2 ^ nat \<lceil>log2_of lm t\<rceil> \<le> 1"
proof -
  let ?m = "\<lceil>log2_of lm t\<rceil>"
  let ?c = "\<lceil>log 2 (real_of_int t)\<rceil>"
  have m0: "0 \<le> ?m" using assms by (rule max_zoom_nonneg)
  have up: "t \<le> 2 ^ nat ?c" using assms by (rule ceil_log2_upper)
  have "t < 2 * 2 ^ nat ?m"
  proof (cases "?m = ?c")
    case True
    have "(2::int) ^ nat ?c < 2 * 2 ^ nat ?c" by simp
    with up show ?thesis unfolding True by linarith
  next
    case False
    then have m: "?m = ?c - 1"
      using max_zoom_upper[OF assms, of lm] max_zoom_lower[OF assms, of lm] by linarith
    have "t \<noteq> 2 ^ nat ?c"
    proof
      assume eq: "t = 2 ^ nat ?c"
      have "?m = \<lceil>log 2 (real_of_int (2 ^ nat ?c))\<rceil>"
        by (subst eq) (rule max_zoom_power)
      then have "?m = ?c" using eq by simp
      with False show False by simp
    qed
    with up have "t < 2 ^ nat ?c" by simp
    moreover have "nat ?c = Suc (nat ?m)" using m m0 by linarith
    ultimately show ?thesis by simp
  qed
  then show ?thesis using assms by (intro level_below) simp_all
qed

lemma level_top_zero:
  assumes "1 \<le> t" "\<nexists>k. t = 2 ^ k"
  shows "t div 2 ^ nat \<lceil>log 2 (real_of_int t)\<rceil> = 0"
proof -
  let ?n = "nat \<lceil>log 2 (real_of_int t)\<rceil>"
  have "t \<le> 2 ^ ?n" using assms(1) by (rule ceil_log2_upper)
  moreover have "t \<noteq> 2 ^ ?n" using assms(2) by blast
  ultimately have "t < 2 ^ ?n" by simp
  then show ?thesis using assms(1) by (simp add: div_pos_pos_trivial)
qed

lemma py_range_upto: "py_range a (b + 1) = [a..b]"
  by (simp add: py_range_def)

lemma top_level_untouched:
  assumes "1 \<le> tiles_per_axis g" "tiles_this_level g (max_zoom g) < 1"
  shows "tiles (snd (generate_all_tiles lib g src st)) (max_zoom g, x, y) = tiles st (max_zoom g, x, y)"
proof (rule generate_all_tiles_frame)
  have "max_zoom g \<noteq> 0"
  proof
    assume "max_zoom g = 0"
    then have "tiles_this_level g (max_zoom g) = tiles_per_axis g"
      by (simp add: tiles_this_level_def)
    with assms show False by simp
  qed
  then show "fst (max_zoom g, x, y) \<noteq> 0" by simp
next
  fix z assume "z \<in> set (py_range 1 (max_zoom g + 1))"
  show "fst (max_zoom g, x, y) \<noteq> z \<or> tiles_this_level g z < 1"
    using assms(2) by auto
qed

lemma not_power_of_two_130: "\<nexists>k. (130::int) = 2 ^ k"
proof
  assume "\<exists>k. (130::int) = 2 ^ k"
  then obtain k :: nat where k: "(130::int) = 2 ^ k" ..
  show False
  proof (cases "k \<le> 7")
    case True
    then have "(2::int) ^ k \<le> 2 ^ 7" by (rule power_increasing) simp
    with k show False by simp
  next
    case False
    then have "8 \<le> k" by simp
    then have "(2::int) ^ 8 \<le> 2 ^ k" by (rule power_increasing) simp
    with k show False by simp
  qed
qed

lemma not_power_of_two_wide: "\<nexists>k. (2::int) ^ 49 + 1 = 2 ^ k"
proof
  assume "\<exists>k. (2::int) ^ 49 + 1 = 2 ^ k"
  then obtain k :: nat where k: "(2::int) ^ 49 + 1 = 2 ^ k" ..
  show False
  proof (cases k)
    case 0
    with k show False by simp
  next
    case (Suc j)
    then have "even ((2::int) ^ k)" by simp
    moreover have "odd ((2::int) ^ 49 + 1)" by simp
    ultimately show False using k by metis
  qed
qed

lemma calculate_max_zoom_wide: "calculate_max_zoom sample_log2 (2 ^ 49 + 1) = Inr 49"
  using fl_log2_wide
  by (simp add: calculate_max_zoom_def math_log2_def log2_of_sample)

lemma init_wide: "init sample_log2 (2 ^ 49 + 1) 2 1000 = Inr wide_generator"
  using calculate_max_zoom_wide
  by (simp add: init_def py_floordiv_def py_truediv_def wide_generator_def)

lemma compose_tile_blank:
  "0 \<le> ts \<Longrightarrow> compose_tile lib Map.empty ts z x y = Inr (solid_image ts ts black)"
  by (simp add: compose_tile_def Image_new_def quadrants_def quadrant_step_def solid_image_def)

lemma generate_zoom_level_wide:
  "generate_zoom_level sample_pil wide_generator 49 empty_fs
     = (Ok, empty_fs\<lparr>tiles := [(49, 0, 0) \<mapsto> solid_image 2 2 black]\<rparr>)"
proof -
  have n: "tiles_this_level wide_generator 49 = 1"
    by (simp add: tiles_this_level_def wide_generator_def)
  have c: "compose_tile sample_pil (tiles empty_fs) (tile_size_px wide_generator) 49 0 0
      = Inr (solid_image 2 2 black)"
    using compose_tile_blank[of 2 sample_pil 49 0 0] by (simp add: empty_fs_def wide_generator_def)
  have "zoom_tile_step sample_pil wide_generator 49 0 0 empty_fs
      = (Ok, empty_fs\<lparr>tiles := [(49, 0, 0) \<mapsto> solid_image 2 2 black]\<rparr>)"
    unfolding zoom_tile_step_def c by (simp add: sample_pil_def empty_fs_def)
  then show ?thesis
    by (simp add: generate_zoom_level_def n py_range_def)
qed

text \<open>
  C9, as the claim states it, fails: \<open>2^49 + 1\<close> is not a power of two, the constructor
  gives it the maximum zoom 49 when the rounded logarithm returns 49 there, the metadata entry of
  zoom 49 reports one tile, and the pyramid builder does write that tile:
  \<open>(2^49 + 1) // 2^49 = 1\<close> is not below 1.
\<close>

theorem metadata_top_level_counterexample:
  "(\<nexists>k. tiles_per_axis wide_generator = 2 ^ k)
   \<and> init sample_log2 (2 ^ 49 + 1) 2 1000 = Inr wide_generator
   \<and> max_zoom wide_generator = 49
   \<and> zl_totalTiles (zoom_level_entry wide_generator 49) = 1
   \<and> tiles_this_level wide_generator 49 = 1
   \<and> tiles (snd (generate_zoom_level sample_pil wide_generator 49 empty_fs)) (49, 0, 0)
       = Some (solid_image 2 2 black)"
proof -
  have "\<nexists>k. tiles_per_axis wide_generator = 2 ^ k"
    using not_power_of_two_wide by (simp add: wide_generator_def)
  moreover have "zl_totalTiles (zoom_level_entry wide_generator 49) = 1"
    by (simp add: zoom_level_entry_def wide_generator_def)
  moreover have "tiles_this_level wide_generator 49 = 1"
    by (simp add: tiles_this_level_def wide_generator_def)
  moreover have "max_zoom wide_generator = 49" by (simp add: wide_generator_def)
  ultimately show ?thesis using init_wide by (simp add: generate_zoom_level_wide)
qed

text \<open>
  C9, amended. For every constructed generator the metadata emitter raises nothing and
  writes one entry for every zoom in \<open>0 .. max_zoom\<close>, with
  \<open>tilesPerAxis = max(1, tiles_per_axis // 2^z)\<close> and \<open>totalTiles\<close> its square, while the
  pyramid builder returns without writing when \<open>tiles_per_axis // 2^z\<close> is below 1. So for
  every \<open>tiles_per_axis\<close> that is not a power of two and whose maximum zoom is the ceiling
  of the binary logarithm, as it is for every \<open>tiles_per_axis\<close> below \<open>2^46\<close>, the entry
  of \<open>max_zoom\<close> reports one tile, the builder writes none at that level, and a whole run
  leaves that level of the output as it was.
\<close>

theorem metadata_reports_tile_at_empty_top_level:
  assumes "init lm s ts mpt = Inr g"
  shows "(\<exists>md. generate_metadata g st = (Ok, st\<lparr>metadata_json := Some md\<rparr>)
            \<and> md_maxZoom md = max_zoom g
            \<and> md_zoomLevels md = map (zoom_level_entry g) [0..max_zoom g]
            \<and> length (md_zoomLevels md) = nat (max_zoom g) + 1
            \<and> (\<forall>z. 0 \<le> z \<and> z \<le> max_zoom g \<longrightarrow>
                  md_zoomLevels md ! nat z = zoom_level_entry g z))
     \<and> (\<forall>z. zl_zoom (zoom_level_entry g z) = z
            \<and> zl_tilesPerAxis (zoom_level_entry g z) = max 1 (tiles_per_axis g div 2 ^ nat z)
            \<and> zl_totalTiles (zoom_level_entry g z)
                = max 1 (tiles_per_axis g div 2 ^ nat z) * max 1 (tiles_per_axis g div 2 ^ nat z))
     \<and> (\<forall>z lib st. tiles_per_axis g div 2 ^ nat z < 1 \<longrightarrow> generate_zoom_level lib g z st = (Ok, st))
     \<and> ((\<nexists>k. tiles_per_axis g = 2 ^ k)
          \<and> (tiles_per_axis g < 2 ^ 46
               \<or> max_zoom g = \<lceil>log 2 (real_of_int (tiles_per_axis g))\<rceil>) \<longrightarrow>
           zl_totalTiles (zoom_level_entry g (max_zoom g)) = 1
           \<and> (\<forall>lib st. generate_zoom_level lib g (max_zoom g) st = (Ok, st))
           \<and> (\<forall>lib src st x y. tiles (snd (generate_all_tiles lib g src st)) (max_zoom g, x, y)
                  = tiles st (max_zoom g, x, y)))"
proof (intro conjI allI impI)
  note f = init_fields[OF assms]
  have m0: "0 \<le> max_zoom g" unfolding f(2) using f(1) by (rule max_zoom_nonneg)
  from f(3) obtain res where res: "py_truediv (meters_per_tile g * 100) (tile_size_px g) = Inr res"
    ..
  let ?md = "\<lparr>md_mapSizeKm = map_size_km g, md_mapSizeM = map_size_m g,
              md_tileSizePx = tile_size_px g, md_metersPerTile = meters_per_tile g,
              md_tilesPerAxis = tiles_per_axis g, md_maxZoom = max_zoom g,
              md_resolutionCmPerPixel = res,
              md_zoomLevels = map (zoom_level_entry g) [0..max_zoom g]\<rparr>"
  have run: "generate_metadata g st = (Ok, st\<lparr>metadata_json := Some ?md\<rparr>)"
    by (simp add: generate_metadata_def res py_range_upto)
  have len: "length (md_zoomLevels ?md) = nat (max_zoom g) + 1" using m0 by simp
  have nth: "\<forall>z. 0 \<le> z \<and> z \<le> max_zoom g \<longrightarrow> md_zoomLevels ?md ! nat z = zoom_level_entry g z"
  proof (intro allI impI)
    fix z assume z: "0 \<le> z \<and> z \<le> max_zoom g"
    then have "nat z < length [0..max_zoom g]" by simp
    then have "map (zoom_level_entry g) [0..max_zoom g] ! nat z
        = zoom_level_entry g ([0..max_zoom g] ! nat z)" by (rule nth_map)
    also have "[0..max_zoom g] ! nat z = 0 + int (nat z)" using z by (intro nth_upto) simp
    finally show "md_zoomLevels ?md ! nat z = zoom_level_entry g z" using z by simp
  qed
  show "\<exists>md. generate_metadata g st = (Ok, st\<lparr>metadata_json := Some md\<rparr>)
            \<and> md_maxZoom md = max_zoom g
            \<and> md_zoomLevels md = map (zoom_level_entry g) [0..max_zoom g]
            \<and> length (md_zoomLevels md) = nat (max_zoom g) + 1
            \<and> (\<forall>z. 0 \<le> z \<and> z \<le> max_zoom g \<longrightarrow>
                  md_zoomLevels md ! nat z = zoom_level_entry g z)"
    using run len nth by (intro exI[of _ ?md]) simp
next
  fix z show "zl_zoom (zoom_level_entry g z) = z"
    by (simp add: zoom_level_entry_def Let_def)
next
  fix z show "zl_tilesPerAxis (zoom_level_entry g z) = max 1 (tiles_per_axis g div 2 ^ nat z)"
    by (simp add: zoom_level_entry_def Let_def)
next
  fix z show "zl_totalTiles (zoom_level_entry g z)
                = max 1 (tiles_per_axis g div 2 ^ nat z) * max 1 (tiles_per_axis g div 2 ^ nat z)"
    by (simp add: zoom_level_entry_def Let_def)
next
  fix z lib st assume "tiles_per_axis g div 2 ^ nat z < 1"
  then show "generate_zoom_level lib g z st = (Ok, st)"
    by (simp add: generate_zoom_level_def tiles_this_level_def)
next
  assume a: "(\<nexists>k. tiles_per_axis g = 2 ^ k)
          \<and> (tiles_per_axis g < 2 ^ 46
               \<or> max_zoom g = \<lceil>log 2 (real_of_int (tiles_per_axis g))\<rceil>)"
  note f = init_fields[OF assms]
  have mz: "max_zoom g = \<lceil>log 2 (real_of_int (tiles_per_axis g))\<rceil>"
    using a f(1) unfolding f(2) by (auto intro: max_zoom_exact)
  have zero: "tiles_per_axis g div 2 ^ nat (max_zoom g) = 0"
    unfolding mz using f(1) a by (intro level_top_zero) simp_all
  then have lt: "tiles_this_level g (max_zoom g) < 1" by (simp add: tiles_this_level_def)
  show "zl_totalTiles (zoom_level_entry g (max_zoom g)) = 1"
    using zero by (simp add: zoom_level_entry_def Let_def)
  show "generate_zoom_level lib g (max_zoom g) st = (Ok, st)" for lib st
    using lt by (rule generate_zoom_level_empty)
  show "tiles (snd (generate_all_tiles lib g src st)) (max_zoom g, x, y)
          = tiles st (max_zoom g, x, y)" for lib src st x y
    using f(1) lt by (rule top_level_untouched)
qed

theorem metadata_reports_tile_at_empty_top_level_witness:
  "\<exists>md. generate_metadata reference_generator empty_fs
           = (Ok, empty_fs\<lparr>metadata_json := Some md\<rparr>)
      \<and> length (md_zoomLevels md) = 9
      \<and> zl_tilesPerAxis (md_zoomLevels md ! 1) = 65
      \<and> zl_totalTiles (md_zoomLevels md ! 8) = 1
      \<and> generate_zoom_level sample_pil reference_generator 8 empty_fs = (Ok, empty_fs)"
proof -
  have r: "max_zoom reference_generator = 8" "tiles_per_axis reference_generator = 130"
    by (simp_all add: reference_generator_def)
  from metadata_reports_tile_at_empty_top_level[OF init_reference[of sample_log2], of empty_fs]
    not_power_of_two_130
  obtain md where md: "generate_metadata reference_generator empty_fs
           = (Ok, empty_fs\<lparr>metadata_json := Some md\<rparr>)"
      "length (md_zoomLevels md) = nat (max_zoom reference_generator) + 1"
      "\<forall>z. 0 \<le> z \<and> z \<le> max_zoom reference_generator \<longrightarrow>
          md_zoomLevels md ! nat z = zoom_level_entry reference_generator z"
    and e: "\<forall>z. zl_tilesPerAxis (zoom_level_entry reference_generator z)
          = max 1 (tiles_per_axis reference_generator div 2 ^ nat z)"
    and t: "zl_totalTiles (zoom_level_entry reference_generator (max_zoom reference_generator)) = 1"
      "\<forall>lib st. generate_zoom_level lib reference_generator (max_zoom reference_generator) st = (Ok, st)"
    unfolding r by auto
  have "md_zoomLevels md ! 1 = zoom_level_entry reference_generator 1"
    using md(3)[rule_format, of 1] by (simp add: r)
  then have a: "zl_tilesPerAxis (md_zoomLevels md ! 1) = 65"
    using e by (simp add: r)
  have "md_zoomLevels md ! 8 = zoom_level_entry reference_generator 8"
    using md(3)[rule_format, of 8] by (simp add: r)
  then have b: "zl_totalTiles (md_zoomLevels md ! 8) = 1"
    using t(1) by (simp add: r)
  have c: "length (md_zoomLevels md) = 9" using md(2) by (simp add: r)
  have d: "generate_zoom_level sample_pil reference_generator 8 empty_fs = (Ok, empty_fs)"
    using t(2) by (simp add: r)
  from md(1) c a b d show ?thesis by blast
qed

subsection \<open>The reference scenario\<close>

lemma reference_top_level_empty: "tiles_this_level reference_generator 8 < 1"
  by (simp add: tiles_this_level_def reference_generator_def)

lemma reference_run_zoom8:
  "tiles (snd (generate_all_tiles lib reference_generator src st)) (8, x, y) = tiles st (8, x, y)"
  using top_level_untouched[of reference_generator lib src st x y] reference_top_level_empty
  by (simp add: reference_generator_def)

text \<open>
  C1, as the claim states it, fails: in the reference scenario a run that starts from an
  empty output leaves no tile at \<open>(8, 0, 0)\<close>.
\<close>

theorem reference_zoom8_counterexample:
  "init sample_log2 13 542 100 = Inr reference_generator \<and> max_zoom reference_generator = 8
   \<and> tiles (snd (generate_all_tiles sample_pil reference_generator
        (Raster (solid_image 13000 13000 white)) empty_fs)) (8, 0, 0) = None"
  using init_reference[of sample_log2]
    reference_run_zoom8[of sample_pil "Raster (solid_image 13000 13000 white)" empty_fs 0 0]
  by (simp add: reference_generator_def empty_fs_def)

text \<open>
  C1, amended. In the reference scenario (13 km, 100 m per tile, so 130 tiles per axis and
  a maximum zoom of 8) the builder writes no tile at zoom 8: \<open>130 // 2^8 = 0\<close> is below 1,
  \<open>_generate_zoom_level\<close> returns at its guard without clamping the count, and a whole run
  leaves zoom 8 of the output as it was. The last level with a tile count of 1 is zoom 7.
\<close>

theorem reference_zoom8_empty:
  "init lm 13 542 100 = Inr reference_generator
   \<and> tiles_this_level reference_generator 8 = 0
   \<and> generate_zoom_level lib reference_generator 8 st = (Ok, st)
   \<and> tiles (snd (generate_all_tiles lib reference_generator src st)) (8, x, y) = tiles st (8, x, y)
   \<and> tiles_this_level reference_generator 7 = 1"
proof (intro conjI)
  show "init lm 13 542 100 = Inr reference_generator" by (rule init_reference)
  show "tiles_this_level reference_generator 8 = 0"
    by (simp add: tiles_this_level_def reference_generator_def)
  show "generate_zoom_level lib reference_generator 8 st = (Ok, st)"
    using reference_top_level_empty by (rule generate_zoom_level_empty)
  show "tiles (snd (generate_all_tiles lib reference_generator src st)) (8, x, y) = tiles st (8, x, y)"
    by (rule reference_run_zoom8)
  show "tiles_this_level reference_generator 7 = 1"
    by (simp add: tiles_this_level_def reference_generator_def)
qed

theorem reference_zoom8_empty_witness:
  "generate_zoom_level sample_pil reference_generator 8 empty_fs = (Ok, empty_fs)
   \<and> tiles (snd (generate_all_tiles sample_pil reference_generator Missing empty_fs)) (8, 0, 0) = None"
  using reference_zoom8_empty[of sample_log2 sample_pil empty_fs Missing 0 0]
  by (simp add: empty_fs_def)

subsection \<open>A source that cannot be loaded\<close>

lemma calculate_max_zoom_power: "calculate_max_zoom lm (2 ^ k) = Inr (int k)"
  by (simp add: calculate_max_zoom_def math_log2_def log2_of_power)


lemma init_one_px: "init lm 4 1 1000 = Inr one_px_generator"
  using calculate_max_zoom_power[of lm 2]
  by (simp add: init_def py_floordiv_def py_truediv_def one_px_generator_def)










subsection \<open>Composing a tile\<close>

lemma quadrant_step_Ok:
  assumes "\<forall>t. S (p, sx + dx, sy + dy) = Some t \<longrightarrow> pil_lanczos lib t (h, h) \<noteq> None"
  shows "fst (quadrant_step lib S p sx sy h (dx, dy) c) = Ok"
proof (cases "S (p, sx + dx, sy + dy)")
  case None
  then show ?thesis by (simp add: quadrant_step_def)
next
  case (Some t)
  with assms obtain q where "pil_lanczos lib t (h, h) = Some q" by auto
  then show ?thesis using Some by (simp add: quadrant_step_def resize_def)
qed

lemma quadrant_step_size:
  "size_w (snd (quadrant_step lib S p sx sy h d c)) = size_w c
   \<and> size_h (snd (quadrant_step lib S p sx sy h d c)) = size_h c"
  by (cases d) (simp add: quadrant_step_def paste_def split: option.splits sum.splits)

lemma quadrant_step_px:
  assumes "\<forall>t. S (p, sx + dx, sy + dy) = Some t \<longrightarrow> pil_lanczos lib t (h, h) \<noteq> None"
  shows "px (snd (quadrant_step lib S p sx sy h (dx, dy) c)) a b =
     (case S (p, sx + dx, sy + dy) of
        None \<Rightarrow> px c a b
      | Some t \<Rightarrow>
          if dx * h \<le> a \<and> a < dx * h + h \<and> dy * h \<le> b \<and> b < dy * h + h
          then the (pil_lanczos lib t (h, h)) (a - dx * h) (b - dy * h)
          else px c a b)"
proof (cases "S (p, sx + dx, sy + dy)")
  case None
  then show ?thesis by (simp add: quadrant_step_def)
next
  case (Some t)
  with assms obtain q where "pil_lanczos lib t (h, h) = Some q" by auto
  then show ?thesis using Some by (simp add: quadrant_step_def resize_def paste_def)
qed

lemma in_quadrant_iff:
  fixes h i :: int
  assumes "d \<in> {0, 1}" "e \<in> {0, 1}" "0 \<le> i" "i < h"
  shows "(d * h \<le> e * h + i \<and> e * h + i < d * h + h) \<longleftrightarrow> d = e"
  using assms by auto

lemma quadrant_step_px_other:
  assumes "\<forall>t. S (p, sx + dx, sy + dy) = Some t \<longrightarrow> pil_lanczos lib t (h, h) \<noteq> None"
    and "dx \<in> {0, 1}" "dy \<in> {0, 1}" "ex \<in> {0, 1}" "ey \<in> {0, 1}"
    and "0 \<le> i" "i < h" "0 \<le> j" "j < h" "(dx, dy) \<noteq> (ex, ey)"
  shows "px (snd (quadrant_step lib S p sx sy h (dx, dy) c)) (ex * h + i) (ey * h + j)
           = px c (ex * h + i) (ey * h + j)"
proof -
  have x: "(dx * h \<le> ex * h + i \<and> ex * h + i < dx * h + h) = (dx = ex)"
    using assms(2,4,6,7) by (rule in_quadrant_iff)
  have y: "(dy * h \<le> ey * h + j \<and> ey * h + j < dy * h + h) = (dy = ey)"
    using assms(3,5,8,9) by (rule in_quadrant_iff)
  have neg: "\<not> (dx * h \<le> ex * h + i \<and> ex * h + i < dx * h + h
           \<and> dy * h \<le> ey * h + j \<and> ey * h + j < dy * h + h)"
    using x y assms(10) by blast
  note qp = quadrant_step_px[where S = S and p = p and sx = sx and sy = sy and dx = dx
      and dy = dy and lib = lib and h = h, OF assms(1)]
  show ?thesis
  proof (cases "S (p, sx + dx, sy + dy)")
    case None
    then show ?thesis by (simp only: qp option.case)
  next
    case (Some t)
    then show ?thesis using neg
      by (simp only: qp option.case if_not_P if_False)
  qed
qed

lemma quadrant_step_px_same:
  assumes "\<forall>t. S (p, sx + ex, sy + ey) = Some t \<longrightarrow> pil_lanczos lib t (h, h) \<noteq> None"
    and "0 \<le> i" "i < h" "0 \<le> j" "j < h"
  shows "px (snd (quadrant_step lib S p sx sy h (ex, ey) c)) (ex * h + i) (ey * h + j)
           = (case S (p, sx + ex, sy + ey) of
                None \<Rightarrow> px c (ex * h + i) (ey * h + j)
              | Some t \<Rightarrow> the (pil_lanczos lib t (h, h)) i j)"
proof -
  have pos: "ex * h \<le> ex * h + i \<and> ex * h + i < ex * h + h
           \<and> ey * h \<le> ey * h + j \<and> ey * h + j < ey * h + h"
    using assms(2-5) by simp
  have off: "ex * h + i - ex * h = i" "ey * h + j - ey * h = j" by simp_all
  note qp = quadrant_step_px[where S = S and p = p and sx = sx and sy = sy and dx = ex
      and dy = ey and lib = lib and h = h, OF assms(1)]
  show ?thesis
  proof (cases "S (p, sx + ex, sy + ey)")
    case None
    then show ?thesis by (simp only: qp option.case)
  next
    case (Some t)
    then show ?thesis using pos
      by (simp only: qp option.case if_P if_True off)
  qed
qed

lemma for_each_step_Ok:
  assumes "fst (body x st) = Ok"
  shows "for_each body (x # xs) st = for_each body xs (snd (body x st))"
  using assms by (cases "body x st") simp

text \<open>
  When the resize succeeds on the source tiles that a cell reads, the four steps of the
  cell succeed one after the other.
\<close>

lemma compose_tile_unfold:
  assumes "0 \<le> ts"
    and "\<forall>dx\<in>{0, 1}. \<forall>dy\<in>{0, 1}. \<forall>t. S (z - 1, x * 2 + dx, y * 2 + dy) = Some t
           \<longrightarrow> pil_lanczos lib t (ts div 2, ts div 2) \<noteq> None"
  shows "compose_tile lib S ts z x y =
     Inr (snd (quadrant_step lib S (z - 1) (x * 2) (y * 2) (ts div 2) (1, 1)
         (snd (quadrant_step lib S (z - 1) (x * 2) (y * 2) (ts div 2) (1, 0)
         (snd (quadrant_step lib S (z - 1) (x * 2) (y * 2) (ts div 2) (0, 1)
         (snd (quadrant_step lib S (z - 1) (x * 2) (y * 2) (ts div 2) (0, 0)
            \<lparr>size_w = ts, size_h = ts, px = (\<lambda>i j. black)\<rparr>))))))))"
proof -
  let ?q = "quadrant_step lib S (z - 1) (x * 2) (y * 2) (ts div 2)"
  let ?b = "\<lparr>size_w = ts, size_h = ts, px = (\<lambda>i j. black)\<rparr>"
  have ok: "fst (?q (dx, dy) c) = Ok" if "dx \<in> {0, 1}" "dy \<in> {0, 1}" for dx dy c
    by (rule quadrant_step_Ok) (use assms(2) that in blast)
  have ok00: "fst (?q (0, 0) c) = Ok" for c by (rule ok) simp_all
  have ok01: "fst (?q (0, 1) c) = Ok" for c by (rule ok) simp_all
  have ok10: "fst (?q (1, 0) c) = Ok" for c by (rule ok) simp_all
  have ok11: "fst (?q (1, 1) c) = Ok" for c by (rule ok) simp_all
  have new: "Image_new ts ts = Inr ?b" using assms(1) by (simp add: Image_new_def)
  have loop: "for_each ?q quadrants ?b =
      (Ok, snd (?q (1, 1) (snd (?q (1, 0) (snd (?q (0, 1) (snd (?q (0, 0) ?b))))))))"
    unfolding quadrants_def
    by (simp only: for_each_step_Ok[where body = ?q, OF ok00]
        for_each_step_Ok[where body = ?q, OF ok01] for_each_step_Ok[where body = ?q, OF ok10]
        for_each_step_Ok[where body = ?q, OF ok11] for_each.simps(1))
  show ?thesis
    by (simp add: compose_tile_def new loop)
qed

lemma compose_tile_size:
  assumes "0 \<le> ts"
    and "\<forall>dx\<in>{0, 1}. \<forall>dy\<in>{0, 1}. \<forall>t. S (z - 1, x * 2 + dx, y * 2 + dy) = Some t
           \<longrightarrow> pil_lanczos lib t (ts div 2, ts div 2) \<noteq> None"
    and "compose_tile lib S ts z x y = Inr canvas"
  shows "size_w canvas = ts \<and> size_h canvas = ts"
  using assms(3) unfolding compose_tile_unfold[OF assms(1,2)]
  by (auto simp: quadrant_step_size)

lemma compose_tile_px:
  assumes "0 \<le> ts"
    and "\<forall>dx\<in>{0, 1}. \<forall>dy\<in>{0, 1}. \<forall>t. S (z - 1, x * 2 + dx, y * 2 + dy) = Some t
           \<longrightarrow> pil_lanczos lib t (ts div 2, ts div 2) \<noteq> None"
    and "compose_tile lib S ts z x y = Inr canvas"
    and "dx \<in> {0, 1}" "dy \<in> {0, 1}" "0 \<le> i" "i < ts div 2" "0 \<le> j" "j < ts div 2"
  shows "px canvas (dx * (ts div 2) + i) (dy * (ts div 2) + j) =
           (case S (z - 1, x * 2 + dx, y * 2 + dy) of
              None \<Rightarrow> black
            | Some t \<Rightarrow> the (pil_lanczos lib t (ts div 2, ts div 2)) i j)"
proof -
  let ?h = "ts div 2"
  let ?q = "quadrant_step lib S (z - 1) (x * 2) (y * 2) ?h"
  let ?b = "\<lparr>size_w = ts, size_h = ts, px = (\<lambda>i j. black)\<rparr>"
  let ?c1 = "snd (?q (0, 0) ?b)"
  let ?c2 = "snd (?q (0, 1) ?c1)"
  let ?c3 = "snd (?q (1, 0) ?c2)"
  let ?c4 = "snd (?q (1, 1) ?c3)"
  let ?a = "dx * ?h + i" and ?b' = "dy * ?h + j"
  let ?want = "case S (z - 1, x * 2 + dx, y * 2 + dy) of
              None \<Rightarrow> black
            | Some t \<Rightarrow> the (pil_lanczos lib t (?h, ?h)) i j"
  have c: "canvas = ?c4" using assms(3) unfolding compose_tile_unfold[OF assms(1,2)] by simp
  have other: "px (snd (?q (ex, ey) c')) ?a ?b' = px c' ?a ?b'"
    if "ex \<in> {0, 1}" "ey \<in> {0, 1}" "(ex, ey) \<noteq> (dx, dy)" for ex ey c'
  proof (rule quadrant_step_px_other)
    show "\<forall>t. S (z - 1, x * 2 + ex, y * 2 + ey) = Some t
        \<longrightarrow> pil_lanczos lib t (ts div 2, ts div 2) \<noteq> None"
      using assms(2) that(1,2) by blast
  qed (use that assms(4-9) in simp_all)
  have same: "px (snd (?q (dx, dy) c')) ?a ?b' =
      (case S (z - 1, x * 2 + dx, y * 2 + dy) of None \<Rightarrow> px c' ?a ?b'
       | Some t \<Rightarrow> the (pil_lanczos lib t (?h, ?h)) i j)" for c'
  proof (rule quadrant_step_px_same)
    show "\<forall>t. S (z - 1, x * 2 + dx, y * 2 + dy) = Some t
        \<longrightarrow> pil_lanczos lib t (ts div 2, ts div 2) \<noteq> None"
      using assms(2,4,5) by blast
  qed (use assms(6-9) in simp_all)
  have blank: "px ?b ?a ?b' = black" by simp
  consider "dx = 0 \<and> dy = 0" | "dx = 0 \<and> dy = 1" | "dx = 1 \<and> dy = 0" | "dx = 1 \<and> dy = 1"
    using assms(4,5) by auto
  then have "px ?c4 ?a ?b' = ?want"
  proof cases
    case 1
    have "px ?c4 ?a ?b' = px ?c3 ?a ?b'" using 1 by (intro other) simp_all
    also have "\<dots> = px ?c2 ?a ?b'" using 1 by (intro other) simp_all
    also have "\<dots> = px ?c1 ?a ?b'" using 1 by (intro other) simp_all
    also have "\<dots> = (case S (z - 1, x * 2 + dx, y * 2 + dy) of None \<Rightarrow> px ?b ?a ?b'
       | Some t \<Rightarrow> the (pil_lanczos lib t (?h, ?h)) i j)"
      using same[of ?b] 1 by simp
    finally show ?thesis by (simp only: blank)
  next
    case 2
    have "px ?c4 ?a ?b' = px ?c3 ?a ?b'" using 2 by (intro other) simp_all
    also have "\<dots> = px ?c2 ?a ?b'" using 2 by (intro other) simp_all
    also have "\<dots> = (case S (z - 1, x * 2 + dx, y * 2 + dy) of None \<Rightarrow> px ?c1 ?a ?b'
       | Some t \<Rightarrow> the (pil_lanczos lib t (?h, ?h)) i j)"
      using same[of ?c1] 2 by simp
    also have "px ?c1 ?a ?b' = px ?b ?a ?b'" using 2 by (intro other) simp_all
    finally show ?thesis by (simp only: blank)
  next
    case 3
    have "px ?c4 ?a ?b' = px ?c3 ?a ?b'" using 3 by (intro other) simp_all
    also have "\<dots> = (case S (z - 1, x * 2 + dx, y * 2 + dy) of None \<Rightarrow> px ?c2 ?a ?b'
       | Some t \<Rightarrow> the (pil_lanczos lib t (?h, ?h)) i j)"
      using same[of ?c2] 3 by simp
    also have "px ?c2 ?a ?b' = px ?c1 ?a ?b'" using 3 by (intro other) simp_all
    also have "px ?c1 ?a ?b' = px ?b ?a ?b'" using 3 by (intro other) simp_all
    finally show ?thesis by (simp only: blank)
  next
    case 4
    have "px ?c4 ?a ?b' = (case S (z - 1, x * 2 + dx, y * 2 + dy) of None \<Rightarrow> px ?c3 ?a ?b'
       | Some t \<Rightarrow> the (pil_lanczos lib t (?h, ?h)) i j)"
      using same[of ?c3] 4 by simp
    also have "px ?c3 ?a ?b' = px ?c2 ?a ?b'" using 4 by (intro other) simp_all
    also have "px ?c2 ?a ?b' = px ?c1 ?a ?b'" using 4 by (intro other) simp_all
    also have "px ?c1 ?a ?b' = px ?b ?a ?b'" using 4 by (intro other) simp_all
    finally show ?thesis by (simp only: blank)
  qed
  then show ?thesis by (simp only: c)
qed

subsection \<open>A zoom level\<close>

lemma for_each_Ok_gen:
  assumes step: "\<And>x s. x \<in> A \<Longrightarrow> I s \<Longrightarrow> \<exists>s'. body x s = (Ok, s') \<and> I s' \<and> Q x s'"
    and stable: "\<And>x y s s'. x \<in> A \<Longrightarrow> y \<in> A \<Longrightarrow> I s \<Longrightarrow> Q x s \<Longrightarrow> body y s = (Ok, s') \<Longrightarrow> Q x s'"
  shows "I st \<Longrightarrow> \<forall>x\<in>D. Q x st \<Longrightarrow> D \<subseteq> A \<Longrightarrow> set xs \<subseteq> A
     \<Longrightarrow> \<exists>st'. for_each body xs st = (Ok, st') \<and> I st' \<and> (\<forall>x\<in>D \<union> set xs. Q x st')"
proof (induction xs arbitrary: st D)
  case Nil
  then show ?case by simp
next
  case (Cons x xs)
  have xA: "x \<in> A" using Cons.prems(4) by simp
  from step[OF xA Cons.prems(1)] obtain s1
    where b: "body x st = (Ok, s1)" and i1: "I s1" and q1: "Q x s1" by blast
  have d1: "\<forall>d\<in>insert x D. Q d s1"
  proof
    fix d assume "d \<in> insert x D"
    then show "Q d s1"
    proof
      assume "d = x" then show ?thesis using q1 by simp
    next
      assume dD: "d \<in> D"
      then have "d \<in> A" using Cons.prems(3) by blast
      moreover have "Q d st" using Cons.prems(2) dD by blast
      ultimately show ?thesis using xA Cons.prems(1) b stable by blast
    qed
  qed
  have "insert x D \<subseteq> A" using xA Cons.prems(3) by simp
  moreover have "set xs \<subseteq> A" using Cons.prems(4) by simp
  ultimately obtain st' where r: "for_each body xs s1 = (Ok, st')" "I st'"
      "\<forall>d\<in>insert x D \<union> set xs. Q d st'"
    using Cons.IH[OF i1 d1] by blast
  have "for_each body (x # xs) st = (Ok, st')" using b r(1) by simp
  moreover have "\<forall>d\<in>D \<union> set (x # xs). Q d st'" using r(3) by simp
  ultimately show ?case using r(2) by blast
qed

lemma for_each_Ok:
  assumes "I st"
    and "\<And>x s. x \<in> set xs \<Longrightarrow> I s \<Longrightarrow> \<exists>s'. body x s = (Ok, s') \<and> I s' \<and> Q x s'"
    and "\<And>x y s s'. x \<in> set xs \<Longrightarrow> y \<in> set xs \<Longrightarrow> I s \<Longrightarrow> Q x s \<Longrightarrow> body y s = (Ok, s') \<Longrightarrow> Q x s'"
  shows "\<exists>st'. for_each body xs st = (Ok, st') \<and> I st' \<and> (\<forall>x\<in>set xs. Q x st')"
  using for_each_Ok_gen[where A = "set xs" and D = "{}" and I = I and Q = Q and body = body
      and st = st and xs = xs, OF assms(2) assms(3)] assms(1)
  by simp

lemma compose_tile_cong:
  assumes "\<forall>a b. S1 (z - 1, a, b) = S2 (z - 1, a, b)"
  shows "compose_tile lib S1 ts z x y = compose_tile lib S2 ts z x y"
proof -
  have eq: "quadrant_step lib S1 (z - 1) (x * 2) (y * 2) (ts div 2)
      = quadrant_step lib S2 (z - 1) (x * 2) (y * 2) (ts div 2)"
    using assms by (intro ext) (simp add: quadrant_step_def split: prod.splits)
  show ?thesis unfolding compose_tile_def eq by (rule refl)
qed

lemma zoom_tile_step_Ok:
  assumes "0 \<le> tile_size_px g"
    and "\<forall>a b t. tiles (st0::fs) (z - 1, a, b) = Some t
           \<longrightarrow> pil_lanczos lib t (tile_size_px g div 2, tile_size_px g div 2) \<noteq> None"
    and "\<forall>img. size_w img = tile_size_px g \<and> size_h img = tile_size_px g
           \<longrightarrow> pil_save lib 85 img \<noteq> None"
    and "\<forall>a b. tiles s (z - 1, a, b) = tiles (st0::fs) (z - 1, a, b)"
  shows "\<exists>t. level_tile lib g (tiles st0) z x y = Some t
           \<and> zoom_tile_step lib g z x y s = (Ok, s\<lparr>tiles := (tiles s)((z, x, y) \<mapsto> t)\<rparr>)"
proof -
  have same: "compose_tile lib (tiles s) (tile_size_px g) z x y
      = compose_tile lib (tiles st0) (tile_size_px g) z x y"
    using assms(4) by (rule compose_tile_cong)
  have "\<forall>dx\<in>{0, 1}. \<forall>dy\<in>{0, 1}. \<forall>t. tiles st0 (z - 1, x * 2 + dx, y * 2 + dy) = Some t
           \<longrightarrow> pil_lanczos lib t (tile_size_px g div 2, tile_size_px g div 2) \<noteq> None"
    using assms(2) by blast
  then have q: "\<forall>dx\<in>{0, 1}. \<forall>dy\<in>{0, 1}. \<forall>t. tiles st0 (z - 1, x * 2 + dx, y * 2 + dy) = Some t
           \<longrightarrow> pil_lanczos lib t (tile_size_px g div 2, tile_size_px g div 2) \<noteq> None" .
  obtain c where c: "compose_tile lib (tiles st0) (tile_size_px g) z x y = Inr c"
    using compose_tile_unfold[OF assms(1) q] by blast
  have "size_w c = tile_size_px g \<and> size_h c = tile_size_px g"
    using assms(1) q c by (rule compose_tile_size)
  then obtain t where t: "pil_save lib 85 c = Some t" using assms(3) by auto
  have "level_tile lib g (tiles st0) z x y = Some t" by (simp add: level_tile_def c t)
  moreover have "zoom_tile_step lib g z x y s = (Ok, s\<lparr>tiles := (tiles s)((z, x, y) \<mapsto> t)\<rparr>)"
    by (simp add: zoom_tile_step_def same c t)
  ultimately show ?thesis by blast
qed

lemma zoom_tile_step_keeps:
  assumes "0 \<le> tile_size_px g"
    and "\<forall>a b t. tiles (st0::fs) (z - 1, a, b) = Some t
           \<longrightarrow> pil_lanczos lib t (tile_size_px g div 2, tile_size_px g div 2) \<noteq> None"
    and "\<forall>img. size_w img = tile_size_px g \<and> size_h img = tile_size_px g
           \<longrightarrow> pil_save lib 85 img \<noteq> None"
    and "\<forall>a b. tiles s (z - 1, a, b) = tiles (st0::fs) (z - 1, a, b)"
    and "zoom_tile_step lib g z x y s = (r, s')"
  shows "(\<forall>a b. tiles s' (z - 1, a, b) = tiles st0 (z - 1, a, b))
       \<and> tiles s' (z, x, y) = level_tile lib g (tiles st0) z x y
       \<and> (\<forall>k. k \<noteq> (z, x, y) \<longrightarrow> tiles s' k = tiles s k)"
proof -
  from zoom_tile_step_Ok[OF assms(1-4), of x y] obtain t
    where t: "level_tile lib g (tiles st0) z x y = Some t"
      "zoom_tile_step lib g z x y s = (Ok, s\<lparr>tiles := (tiles s)((z, x, y) \<mapsto> t)\<rparr>)"
    by blast
  have s': "s' = s\<lparr>tiles := (tiles s)((z, x, y) \<mapsto> t)\<rparr>" using t(2) assms(5) by simp
  show ?thesis using assms(4) t(1) by (simp add: s')
qed

lemma zoom_row_Ok:
  assumes "0 \<le> tile_size_px g"
    and "\<forall>a b t. tiles (st0::fs) (z - 1, a, b) = Some t
           \<longrightarrow> pil_lanczos lib t (tile_size_px g div 2, tile_size_px g div 2) \<noteq> None"
    and "\<forall>img. size_w img = tile_size_px g \<and> size_h img = tile_size_px g
           \<longrightarrow> pil_save lib 85 img \<noteq> None"
    and "\<forall>a b. tiles s (z - 1, a, b) = tiles (st0::fs) (z - 1, a, b)"
  shows "\<exists>s'. for_each (zoom_tile_step lib g z x) ys s = (Ok, s')
           \<and> (\<forall>a b. tiles s' (z - 1, a, b) = tiles st0 (z - 1, a, b))
           \<and> (\<forall>y\<in>set ys. tiles s' (z, x, y) = level_tile lib g (tiles st0) z x y)"
proof (rule for_each_Ok[where I = "\<lambda>s::fs. \<forall>a b. tiles s (z - 1, a, b) = tiles st0 (z - 1, a, b)"
      and Q = "\<lambda>y (s::fs). tiles s (z, x, y) = level_tile lib g (tiles st0) z x y"])
  show "\<forall>a b. tiles s (z - 1, a, b) = tiles st0 (z - 1, a, b)" by (rule assms(4))
next
  fix y and s1 :: fs
  assume inv: "\<forall>a b. tiles s1 (z - 1, a, b) = tiles st0 (z - 1, a, b)"
  from zoom_tile_step_Ok[OF assms(1-3) inv, of x y] obtain t
    where t: "zoom_tile_step lib g z x y s1 = (Ok, s1\<lparr>tiles := (tiles s1)((z, x, y) \<mapsto> t)\<rparr>)"
    by blast
  from zoom_tile_step_keeps[OF assms(1-3) inv t] t
  show "\<exists>s'. zoom_tile_step lib g z x y s1 = (Ok, s')
          \<and> (\<forall>a b. tiles s' (z - 1, a, b) = tiles st0 (z - 1, a, b))
          \<and> tiles s' (z, x, y) = level_tile lib g (tiles st0) z x y"
    by blast
next
  fix y y' and s1 s1' :: fs
  assume inv: "\<forall>a b. tiles s1 (z - 1, a, b) = tiles st0 (z - 1, a, b)"
    and q: "tiles s1 (z, x, y) = level_tile lib g (tiles st0) z x y"
    and b: "zoom_tile_step lib g z x y' s1 = (Ok, s1')"
  note k = zoom_tile_step_keeps[OF assms(1-3) inv b]
  show "tiles s1' (z, x, y) = level_tile lib g (tiles st0) z x y"
  proof (cases "y' = y")
    case True
    then show ?thesis using k by simp
  next
    case False
    then have "(z, x, y) \<noteq> (z, x, y')" by simp
    then have "tiles s1' (z, x, y) = tiles s1 (z, x, y)" using k by blast
    then show ?thesis using q by simp
  qed
qed

lemma zoom_row_keeps:
  assumes "0 \<le> tile_size_px g"
    and "\<forall>a b t. tiles (st0::fs) (z - 1, a, b) = Some t
           \<longrightarrow> pil_lanczos lib t (tile_size_px g div 2, tile_size_px g div 2) \<noteq> None"
    and "\<forall>img. size_w img = tile_size_px g \<and> size_h img = tile_size_px g
           \<longrightarrow> pil_save lib 85 img \<noteq> None"
    and "\<forall>a b. tiles s (z - 1, a, b) = tiles (st0::fs) (z - 1, a, b)"
    and "tiles s (z, x, y) = level_tile lib g (tiles st0) z x y"
    and "for_each (zoom_tile_step lib g z x') ys s = (r, s')"
  shows "tiles s' (z, x, y) = level_tile lib g (tiles st0) z x y"
proof -
  let ?P = "\<lambda>s::fs. (\<forall>a b. tiles s (z - 1, a, b) = tiles st0 (z - 1, a, b))
              \<and> tiles s (z, x, y) = level_tile lib g (tiles st0) z x y"
  have "?P s'"
    using assms(6)
  proof (rule for_each_preserves[where P = ?P])
    show "?P s" using assms(4,5) by simp
  next
    fix y' r1 and s1 s1' :: fs
    assume p: "?P s1" and b: "zoom_tile_step lib g z x' y' s1 = (r1, s1')"
    from p have inv: "\<forall>a b. tiles s1 (z - 1, a, b) = tiles st0 (z - 1, a, b)" by simp
    note k = zoom_tile_step_keeps[OF assms(1-3) inv b]
    have "tiles s1' (z, x, y) = level_tile lib g (tiles st0) z x y"
    proof (cases "(z, x, y) = (z, x', y')")
      case True
      then show ?thesis using k by simp
    next
      case False
      then have "tiles s1' (z, x, y) = tiles s1 (z, x, y)" using k by blast
      then show ?thesis using p by simp
    qed
    then show "?P s1'" using k by simp
  qed
  then show ?thesis by simp
qed

lemma zoom_grid_Ok:
  assumes "0 \<le> tile_size_px g"
    and "\<forall>a b t. tiles (st::fs) (z - 1, a, b) = Some t
           \<longrightarrow> pil_lanczos lib t (tile_size_px g div 2, tile_size_px g div 2) \<noteq> None"
    and "\<forall>img. size_w img = tile_size_px g \<and> size_h img = tile_size_px g
           \<longrightarrow> pil_save lib 85 img \<noteq> None"
  shows "\<exists>st'. for_each (\<lambda>tile_x. for_each (zoom_tile_step lib g z tile_x) ys) xs st = (Ok, st')
           \<and> (\<forall>x\<in>set xs. \<forall>y\<in>set ys. tiles st' (z, x, y) = level_tile lib g (tiles st) z x y)"
proof -
  let ?I = "\<lambda>s::fs. \<forall>a b. tiles s (z - 1, a, b) = tiles st (z - 1, a, b)"
  let ?Q = "\<lambda>x (s::fs). \<forall>y\<in>set ys. tiles s (z, x, y) = level_tile lib g (tiles st) z x y"
  have "\<exists>st'. for_each (\<lambda>tile_x. for_each (zoom_tile_step lib g z tile_x) ys) xs st = (Ok, st')
           \<and> ?I st' \<and> (\<forall>x\<in>set xs. ?Q x st')"
  proof (rule for_each_Ok[where I = ?I and Q = ?Q])
    show "?I st" by simp
  next
    fix x and s :: fs assume "?I s"
    with assms show "\<exists>s'. for_each (zoom_tile_step lib g z x) ys s = (Ok, s') \<and> ?I s' \<and> ?Q x s'"
      by (rule zoom_row_Ok)
  next
    fix x x' and s s' :: fs
    assume inv: "?I s" and q: "?Q x s"
      and b: "for_each (zoom_tile_step lib g z x') ys s = (Ok, s')"
    show "?Q x s'"
    proof
      fix y assume "y \<in> set ys"
      then have "tiles s (z, x, y) = level_tile lib g (tiles st) z x y" using q by blast
      with assms inv show "tiles s' (z, x, y) = level_tile lib g (tiles st) z x y"
        using b by (rule zoom_row_keeps)
    qed
  qed
  then show ?thesis by blast
qed

lemma upto_0_1: "[0..1] = [0, 1]"
  by (simp add: upto_rec1)

lemma zoom_level_one_px:
  "generate_zoom_level sample_pil one_px_generator 1 one_tile = (Raised ImageError, one_tile)"
proof -
  have n: "tiles_this_level one_px_generator 1 = 2"
    by (simp add: tiles_this_level_def one_px_generator_def)
  have c: "compose_tile sample_pil (tiles one_tile) (tile_size_px one_px_generator) 1 0 0
      = Inl ImageError"
    by (simp add: compose_tile_def Image_new_def quadrants_def quadrant_step_def resize_def
        sample_pil_def one_tile_def empty_fs_def one_px_generator_def)
  have "zoom_tile_step sample_pil one_px_generator 1 0 0 one_tile = (Raised ImageError, one_tile)"
    unfolding zoom_tile_step_def c by simp
  then show ?thesis
    by (simp add: generate_zoom_level_def n py_range_def upto_0_1)
qed

text \<open>
  C4, as the claim states it, fails for a tile size of 1, which the constructor accepts:
  half the tile size is 0, the resize of the one present source tile to \<open>0 x 0\<close> raises,
  and since \<open>_generate_zoom_level\<close> has no handler the level raises and writes no tile.
\<close>

theorem zoom_level_one_px_counterexample:
  "init sample_log2 4 1 1000 = Inr one_px_generator
   \<and> (0::int) < tiles_this_level one_px_generator 1
   \<and> tiles one_tile (0, 0, 0) = Some (solid_image 1 1 white)
   \<and> tiles one_tile (0, 0, 1) = None
   \<and> generate_zoom_level sample_pil one_px_generator 1 one_tile = (Raised ImageError, one_tile)
   \<and> tiles one_tile (1, 0, 0) = None"
  using init_one_px[of sample_log2] zoom_level_one_px
  by (simp add: tiles_this_level_def one_px_generator_def one_tile_def empty_fs_def)

text \<open>
  C4, amended. Let the tile size be non-negative, so that the canvas can be made, let the
  library's resize to half the tile size succeed on the tiles of the previous level that
  are present (Pillow's does when half the tile size is at least 1) and let its save
  succeed on an image of the tile size. Then for every zoom of at least 1 and every cell
  \<open>(x, y)\<close> of that level \<open>_generate_zoom_level\<close> raises nothing and writes the tile
  \<open>(zoom, x, y)\<close>, whichever of the four source tiles \<open>(zoom - 1, 2x + dx, 2y + dy)\<close> are
  absent: the tile is the saved canvas of the full tile size, on which the quadrant at
  \<open>(dx * half, dy * half)\<close> holds the source tile resized to half size when that tile is
  present and is blank (black) when it is absent.
\<close>

theorem zoom_level_tolerates_missing_quadrants:
  assumes "0 \<le> tile_size_px g"
    and "\<forall>a b t. tiles (st::fs) (zoom - 1, a, b) = Some t
           \<longrightarrow> pil_lanczos lib t (tile_size_px g div 2, tile_size_px g div 2) \<noteq> None"
    and "\<forall>img. size_w img = tile_size_px g \<and> size_h img = tile_size_px g
           \<longrightarrow> pil_save lib 85 img \<noteq> None"
    and "1 \<le> zoom" "0 \<le> x" "x < tiles_this_level g zoom" "0 \<le> y" "y < tiles_this_level g zoom"
  shows "\<exists>st' canvas.
      generate_zoom_level lib g zoom st = (Ok, st')
    \<and> compose_tile lib (tiles st) (tile_size_px g) zoom x y = Inr canvas
    \<and> tiles st' (zoom, x, y) = pil_save lib 85 canvas
    \<and> tiles st' (zoom, x, y) \<noteq> None
    \<and> size_w canvas = tile_size_px g \<and> size_h canvas = tile_size_px g
    \<and> (\<forall>dx dy i j. dx \<in> {0, 1} \<and> dy \<in> {0, 1}
          \<and> 0 \<le> i \<and> i < tile_size_px g div 2 \<and> 0 \<le> j \<and> j < tile_size_px g div 2 \<longrightarrow>
         px canvas (dx * (tile_size_px g div 2) + i) (dy * (tile_size_px g div 2) + j) =
           (case tiles st (zoom - 1, x * 2 + dx, y * 2 + dy) of
              None \<Rightarrow> black
            | Some src_tile \<Rightarrow>
                the (pil_lanczos lib src_tile (tile_size_px g div 2, tile_size_px g div 2)) i j))"
proof -
  let ?n = "tiles_this_level g zoom"
  have ts: "0 \<le> tile_size_px g" using assms(1) by simp
  have n: "\<not> ?n < 1" using assms(5,6) by simp
  from zoom_grid_Ok[OF ts assms(2,3), of "py_range 0 ?n" "py_range 0 ?n"]
  obtain st' where run: "for_each (\<lambda>tile_x. for_each (zoom_tile_step lib g zoom tile_x)
        (py_range 0 ?n)) (py_range 0 ?n) st = (Ok, st')"
    and all: "\<forall>x\<in>set (py_range 0 ?n). \<forall>y\<in>set (py_range 0 ?n).
        tiles st' (zoom, x, y) = level_tile lib g (tiles st) zoom x y"
    by blast
  have g: "generate_zoom_level lib g zoom st = (Ok, st')"
    using n run by (simp add: generate_zoom_level_def)
  have "x \<in> set (py_range 0 ?n)" "y \<in> set (py_range 0 ?n)"
    using assms(5-8) by (simp_all add: py_range_def)
  with all have tile: "tiles st' (zoom, x, y) = level_tile lib g (tiles st) zoom x y" by blast
  have q: "\<forall>dx\<in>{0, 1}. \<forall>dy\<in>{0, 1}. \<forall>t. tiles st (zoom - 1, x * 2 + dx, y * 2 + dy) = Some t
           \<longrightarrow> pil_lanczos lib t (tile_size_px g div 2, tile_size_px g div 2) \<noteq> None"
    using assms(2) by blast
  obtain canvas where c: "compose_tile lib (tiles st) (tile_size_px g) zoom x y = Inr canvas"
    using compose_tile_unfold[OF ts q] by blast
  have saved: "tiles st' (zoom, x, y) = pil_save lib 85 canvas"
    using tile by (simp add: level_tile_def c)
  have size: "size_w canvas = tile_size_px g \<and> size_h canvas = tile_size_px g"
    using ts q c by (rule compose_tile_size)
  have present: "tiles st' (zoom, x, y) \<noteq> None" using saved size assms(3) by simp
  have pixels: "\<forall>dx dy i j. dx \<in> {0, 1} \<and> dy \<in> {0, 1}
          \<and> 0 \<le> i \<and> i < tile_size_px g div 2 \<and> 0 \<le> j \<and> j < tile_size_px g div 2 \<longrightarrow>
         px canvas (dx * (tile_size_px g div 2) + i) (dy * (tile_size_px g div 2) + j) =
           (case tiles st (zoom - 1, x * 2 + dx, y * 2 + dy) of
              None \<Rightarrow> black
            | Some src_tile \<Rightarrow>
                the (pil_lanczos lib src_tile (tile_size_px g div 2, tile_size_px g div 2)) i j)"
    using compose_tile_px[OF ts q c] by blast
  from g c saved present size pixels show ?thesis by blast
qed

theorem zoom_level_tolerates_missing_quadrants_witness:
  "\<exists>st' canvas. generate_zoom_level sample_pil small_generator 1 three_quadrants = (Ok, st')
      \<and> tiles three_quadrants (0, 1, 1) = None
      \<and> tiles st' (1, 0, 0) = Some canvas
      \<and> px canvas 0 0 = white \<and> px canvas 0 1 = white \<and> px canvas 1 0 = white
      \<and> px canvas 1 1 = black"
proof -
  have h2: "\<forall>a b t. tiles three_quadrants (1 - 1, a, b) = Some t
      \<longrightarrow> pil_lanczos sample_pil t (tile_size_px small_generator div 2,
            tile_size_px small_generator div 2) \<noteq> None"
    by (simp add: sample_pil_def small_generator_def)
  have h3: "\<forall>img. size_w img = tile_size_px small_generator \<and> size_h img = tile_size_px small_generator
      \<longrightarrow> pil_save sample_pil 85 img \<noteq> None" by (simp add: sample_pil_def)
  have n: "tiles_this_level small_generator 1 = 1"
    by (simp add: tiles_this_level_def small_generator_def)
  from zoom_level_tolerates_missing_quadrants[of small_generator three_quadrants 1 sample_pil 0 0,
      OF _ h2 h3]
  obtain st' canvas where r: "generate_zoom_level sample_pil small_generator 1 three_quadrants = (Ok, st')"
    "tiles st' (1, 0, 0) = pil_save sample_pil 85 canvas"
    and pix: "\<And>dx dy i j. dx \<in> {0, 1} \<and> dy \<in> {0, 1}
          \<and> 0 \<le> i \<and> i < tile_size_px small_generator div 2
          \<and> 0 \<le> j \<and> j < tile_size_px small_generator div 2 \<Longrightarrow>
         px canvas (dx * (tile_size_px small_generator div 2) + i)
                   (dy * (tile_size_px small_generator div 2) + j) =
           (case tiles three_quadrants (1 - 1, 0 * 2 + dx, 0 * 2 + dy) of
              None \<Rightarrow> black
            | Some src_tile \<Rightarrow>
                the (pil_lanczos sample_pil src_tile (tile_size_px small_generator div 2,
                  tile_size_px small_generator div 2)) i j)"
    using n by (auto simp: small_generator_def)
  have "px canvas 0 0 = white"
    using pix[of 0 0 0 0]
    by (simp add: small_generator_def three_quadrants_def empty_fs_def sample_pil_def solid_image_def)
  moreover have "px canvas 0 1 = white"
    using pix[of 0 1 0 0]
    by (simp add: small_generator_def three_quadrants_def empty_fs_def sample_pil_def solid_image_def)
  moreover have "px canvas 1 0 = white"
    using pix[of 1 0 0 0]
    by (simp add: small_generator_def three_quadrants_def empty_fs_def sample_pil_def solid_image_def)
  moreover have "px canvas 1 1 = black"
    using pix[of 1 1 0 0]
    by (simp add: small_generator_def three_quadrants_def empty_fs_def sample_pil_def solid_image_def)
  moreover have "tiles st' (1, 0, 0) = Some canvas" using r(2) by (simp add: sample_pil_def)
  moreover have "tiles three_quadrants (0, 1, 1) = None"
    by (simp add: three_quadrants_def empty_fs_def)
  ultimately show ?thesis using r(1) by blast
qed

subsection \<open>The zoom loop\<close>

lemma iterations_le: "iterations body xs st \<le> length xs"
proof (induction xs arbitrary: st)
  case Nil
  then show ?case by simp
next
  case (Cons x xs)
  obtain r s where b: "body x st = (r, s)" by (cases "body x st")
  show ?case
  proof (cases r)
    case Ok
    then show ?thesis using b Cons.IH[of s] by simp
  next
    case (Raised e)
    then show ?thesis using b by simp
  qed
qed

lemma iterations_Ok:
  "fst (for_each body xs st) = Ok \<Longrightarrow> iterations body xs st = length xs"
proof (induction xs arbitrary: st)
  case Nil
  then show ?case by simp
next
  case (Cons x xs)
  obtain r s where b: "body x st = (r, s)" by (cases "body x st")
  show ?case
  proof (cases r)
    case Ok
    then have "fst (for_each body xs s) = Ok" using Cons.prems b by simp
    then have "iterations body xs s = length xs" by (rule Cons.IH)
    then show ?thesis using b Ok by simp
  next
    case (Raised e)
    then show ?thesis using Cons.prems b by simp
  qed
qed

lemma for_each_all_Ok:
  assumes "\<And>x s. fst (body x s) = Ok"
  shows "fst (for_each body xs st) = Ok"
proof (induction xs arbitrary: st)
  case Nil
  then show ?case by simp
next
  case (Cons x xs)
  obtain r s where b: "body x st = (r, s)" by (cases "body x st")
  have "r = Ok" using assms[of x st] b by simp
  then show ?case using b Cons.IH[of s] by simp
qed

lemma generate_zoom_level_Ok:
  assumes "0 \<le> tile_size_px g"
    and "\<forall>img. pil_lanczos lib img (tile_size_px g div 2, tile_size_px g div 2) \<noteq> None"
    and "\<forall>img. size_w img = tile_size_px g \<and> size_h img = tile_size_px g
           \<longrightarrow> pil_save lib 85 img \<noteq> None"
  shows "fst (generate_zoom_level lib g z st) = Ok"
proof (cases "tiles_this_level g z < 1")
  case True
  then show ?thesis by (simp add: generate_zoom_level_def)
next
  case False
  let ?n = "tiles_this_level g z"
  have "\<forall>a b t. tiles st (z - 1, a, b) = Some t
           \<longrightarrow> pil_lanczos lib t (tile_size_px g div 2, tile_size_px g div 2) \<noteq> None"
    using assms(2) by blast
  with assms(1) obtain st' where
    "for_each (\<lambda>tile_x. for_each (zoom_tile_step lib g z tile_x) (py_range 0 ?n))
       (py_range 0 ?n) st = (Ok, st')"
    using zoom_grid_Ok[of g st z lib "py_range 0 ?n" "py_range 0 ?n"] assms(3) by blast
  then show ?thesis using False by (simp add: generate_zoom_level_def)
qed

lemma zoom_loop_one_px:
  "zoom_loop sample_pil one_px_generator one_tile = (Raised ImageError, one_tile)"
  "zoom_steps sample_pil one_px_generator one_tile = 1"
  using zoom_level_one_px
  by (simp_all add: zoom_loop_def zoom_steps_def py_range_def one_px_generator_def upto_rec1)

text \<open>
  C6, as the claim states it, fails: on the four by four grid of tiles of one pixel the
  maximum zoom is 2, the first level raises at its first cell, and the loop ends after
  one step, not two.
\<close>

theorem zoom_loop_early_exit_counterexample:
  "init sample_log2 4 1 1000 = Inr one_px_generator
   \<and> nat (max_zoom one_px_generator) = 2
   \<and> zoom_loop sample_pil one_px_generator one_tile = (Raised ImageError, one_tile)
   \<and> zoom_steps sample_pil one_px_generator one_tile = 1"
  using init_one_px[of sample_log2] zoom_loop_one_px
  by (simp add: one_px_generator_def)

text \<open>
  C6, amended. For every \<open>tiles_per_axis\<close> of at least 1 with its maximum zoom, the zoom
  loop runs over \<open>z = 1 .. max_zoom\<close> and ends after at most \<open>max_zoom\<close> steps; it takes
  exactly \<open>max_zoom\<close> steps when no level raises, which is so when the tile size is not
  negative and the library's resize to half size and its save of an image of the tile
  size raise nothing, and it ends at the first level that raises otherwise. The maximum
  zoom is at most \<open>\<lceil>log 2 tiles_per_axis\<rceil>\<close>; \<open>tiles_this_level\<close> is at least 1 at every
  zoom below \<open>max_zoom\<close> and strictly decreases from each such zoom to the next, and at
  \<open>max_zoom\<close> it is at most 1.
\<close>

theorem zoom_loop_steps:
  assumes "1 \<le> tiles_per_axis g"
    and "calculate_max_zoom lm (tiles_per_axis g) = Inr (max_zoom g)"
  shows "zoom_loop lib g st = for_each (generate_zoom_level lib g) [1..max_zoom g] st
       \<and> zoom_steps lib g st \<le> nat (max_zoom g)
       \<and> (fst (zoom_loop lib g st) = Ok \<longrightarrow> zoom_steps lib g st = nat (max_zoom g))
       \<and> (0 \<le> tile_size_px g
            \<and> (\<forall>img. pil_lanczos lib img (tile_size_px g div 2, tile_size_px g div 2) \<noteq> None)
            \<and> (\<forall>img. size_w img = tile_size_px g \<and> size_h img = tile_size_px g
                  \<longrightarrow> pil_save lib 85 img \<noteq> None)
          \<longrightarrow> fst (zoom_loop lib g st) = Ok \<and> zoom_steps lib g st = nat (max_zoom g))
       \<and> 0 \<le> max_zoom g
       \<and> max_zoom g \<le> \<lceil>log 2 (real_of_int (tiles_per_axis g))\<rceil>
       \<and> (\<forall>z. 0 \<le> z \<and> z < max_zoom g \<longrightarrow>
             1 \<le> tiles_this_level g z \<and> tiles_this_level g (z + 1) < tiles_this_level g z)
       \<and> tiles_this_level g (max_zoom g) \<le> 1"
proof -
  have mz: "max_zoom g = \<lceil>log2_of lm (tiles_per_axis g)\<rceil>"
    using assms by (simp add: calculate_max_zoom_value)
  have m0: "0 \<le> max_zoom g" unfolding mz using assms(1) by (rule max_zoom_nonneg)
  have up: "max_zoom g \<le> \<lceil>log 2 (real_of_int (tiles_per_axis g))\<rceil>"
    unfolding mz using assms(1) by (rule max_zoom_upper)
  have a: "zoom_loop lib g st = for_each (generate_zoom_level lib g) [1..max_zoom g] st"
    by (simp add: zoom_loop_def py_range_upto)
  have len: "length [1..max_zoom g] = nat (max_zoom g)" by simp
  have b: "zoom_steps lib g st \<le> nat (max_zoom g)"
    unfolding zoom_steps_def py_range_upto len[symmetric] by (rule iterations_le)
  have c: "zoom_steps lib g st = nat (max_zoom g)" if "fst (zoom_loop lib g st) = Ok"
    unfolding zoom_steps_def py_range_upto len[symmetric]
    using that unfolding a by (rule iterations_Ok)
  have d: "fst (zoom_loop lib g st) = Ok"
    if "0 \<le> tile_size_px g
        \<and> (\<forall>img. pil_lanczos lib img (tile_size_px g div 2, tile_size_px g div 2) \<noteq> None)
        \<and> (\<forall>img. size_w img = tile_size_px g \<and> size_h img = tile_size_px g
              \<longrightarrow> pil_save lib 85 img \<noteq> None)"
    unfolding zoom_loop_def
  proof (rule for_each_all_Ok)
    fix z s show "fst (generate_zoom_level lib g z s) = Ok"
      using that by (intro generate_zoom_level_Ok) blast+
  qed
  have e: "\<forall>z. 0 \<le> z \<and> z < max_zoom g \<longrightarrow>
             1 \<le> tiles_this_level g z \<and> tiles_this_level g (z + 1) < tiles_this_level g z"
  proof (intro allI impI)
    fix z assume z: "0 \<le> z \<and> z < max_zoom g"
    then have "nat z < nat \<lceil>log2_of lm (tiles_per_axis g)\<rceil>" unfolding mz by linarith
    with assms(1) have p: "2 ^ nat z \<le> tiles_per_axis g" by (rule below_max_zoom)
    have "nat (z + 1) = Suc (nat z)" using z by linarith
    then show "1 \<le> tiles_this_level g z \<and> tiles_this_level g (z + 1) < tiles_this_level g z"
      using level_positive[OF p] level_decreases[OF p] by (simp add: tiles_this_level_def)
  qed
  have f: "tiles_this_level g (max_zoom g) \<le> 1"
    unfolding tiles_this_level_def mz using assms(1) by (rule at_max_zoom)
  from a b c d m0 up e f show ?thesis by blast
qed

theorem zoom_loop_steps_witness:
  "zoom_steps sample_pil reference_generator empty_fs = 8
   \<and> fst (zoom_loop sample_pil reference_generator empty_fs) = Ok
   \<and> tiles_this_level reference_generator 8 \<le> 1
   \<and> tiles_this_level reference_generator 3 < tiles_this_level reference_generator 2
   \<and> max_zoom wide_generator = 49 \<and> tiles_this_level wide_generator 49 \<le> 1"
proof -
  have w1: "1 \<le> tiles_per_axis wide_generator" by (simp add: wide_generator_def)
  have w2: "calculate_max_zoom sample_log2 (tiles_per_axis wide_generator)
      = Inr (max_zoom wide_generator)"
    using calculate_max_zoom_wide by (simp add: wide_generator_def)
  have w3: "max_zoom wide_generator = 49" by (simp add: wide_generator_def)
  from zoom_loop_steps[OF w1 w2, of sample_pil empty_fs]
  have "tiles_this_level wide_generator (max_zoom wide_generator) \<le> 1" by blast
  then have wide: "max_zoom wide_generator = 49 \<and> tiles_this_level wide_generator 49 \<le> 1"
    using w3 by simp
  have h: "0 \<le> tile_size_px reference_generator
      \<and> (\<forall>img. pil_lanczos sample_pil img
            (tile_size_px reference_generator div 2, tile_size_px reference_generator div 2) \<noteq> None)
      \<and> (\<forall>img. size_w img = tile_size_px reference_generator
              \<and> size_h img = tile_size_px reference_generator
            \<longrightarrow> pil_save sample_pil 85 img \<noteq> None)"
    by (simp add: reference_generator_def sample_pil_def)
  have m: "calculate_max_zoom sample_log2 (tiles_per_axis reference_generator)
      = Inr (max_zoom reference_generator)"
    using calculate_max_zoom_130[of sample_log2] by (simp add: reference_generator_def)
  have r: "max_zoom reference_generator = 8" by (simp add: reference_generator_def)
  have one: "1 \<le> tiles_per_axis reference_generator" by (simp add: reference_generator_def)
  note t = zoom_loop_steps[OF one m, of sample_pil empty_fs]
  from t h have ok: "fst (zoom_loop sample_pil reference_generator empty_fs) = Ok
      \<and> zoom_steps sample_pil reference_generator empty_fs = nat (max_zoom reference_generator)"
    by blast
  from t have lv: "\<forall>z. 0 \<le> z \<and> z < max_zoom reference_generator \<longrightarrow>
             1 \<le> tiles_this_level reference_generator z
             \<and> tiles_this_level reference_generator (z + 1) < tiles_this_level reference_generator z"
    by blast
  from t have top: "tiles_this_level reference_generator (max_zoom reference_generator) \<le> 1"
    by blast
  have "tiles_this_level reference_generator 3 < tiles_this_level reference_generator 2"
    using lv[rule_format, of 2] by (simp add: r)
  then show ?thesis using ok top wide by (simp add: r)
qed

subsection \<open>Solid tiles\<close>






subsection \<open>The base grid\<close>














end
